theory Spec2Isabelle
  imports Complex_Main "HOL-Library.Word" "HOL-Library.Sublist"
begin

section \<open>JavaScript strings and numbers\<close>

text \<open>
  A JavaScript string is a sequence of UTF-16 code units. The symbols the program looks for
  lie outside ASCII (the rupee sign is U+20B9, the euro sign U+20AC, the pound sign U+00A3),
  so strings are lists of 16-bit words; \<open>ascii\<close> embeds an ASCII literal.
\<close>

type_synonym jsstring = "16 word list"

definition ascii :: "string \<Rightarrow> jsstring" where
  "ascii s = map of_char s"

text \<open>\<open>String.prototype.includes\<close>: some suffix of the string starts with the pattern.\<close>

fun includes_str :: "jsstring \<Rightarrow> jsstring \<Rightarrow> bool" where
  "includes_str [] sub = (sub = [])"
| "includes_str (c # cs) sub = (take (length sub) (c # cs) = sub \<or> includes_str cs sub)"

text \<open>\<open>Array.prototype.join\<close> with a separator.\<close>

fun join :: "jsstring \<Rightarrow> jsstring list \<Rightarrow> jsstring" where
  "join sep [] = []"
| "join sep [x] = x"
| "join sep (x # y # ys) = x @ sep @ join sep (y # ys)"

text \<open>Decimal rendering of a non-negative integer (\<open>Number.prototype.toString\<close> on it).\<close>

fun showNat :: "nat \<Rightarrow> jsstring" where
  "showNat n =
     (if n < 10 then [of_nat (48 + n)]
      else showNat (n div 10) @ [of_nat (48 + n mod 10)])"

declare showNat.simps [simp del]

text \<open>
  A JavaScript number is an IEEE 754 double. \<open>Num x\<close> is the finite double whose exact
  value is the rational \<open>x\<close> (the two zeros are not told apart: no operation of this
  program distinguishes them); the infinities and the not-a-number value stand beside it.
\<close>

datatype jsnum = Num rat | PosInf | NegInf | NaN

text \<open>
  Rounding to the nearest double, ties to the even significand. \<open>bitLength n\<close> is the
  number of binary digits of \<open>n\<close>; \<open>binExponent a\<close>, for a positive \<open>a\<close>, is the
  \<open>e\<close> with \<open>2^e \<le> a < 2^(e+1)\<close>. A double has 53 significant bits, so the doubles
  next to \<open>a\<close> are the multiples of \<open>2^(e-52)\<close>, with \<open>e\<close> no less than -1022 (below
  that the spacing stays: the subnormal numbers). A result of \<open>2^1024\<close> or more is out
  of range and becomes an infinity.
\<close>

fun bitLength :: "nat \<Rightarrow> nat" where
  "bitLength n = (if n = 0 then 0 else Suc (bitLength (n div 2)))"

declare bitLength.simps [simp del]

definition pow2 :: "int \<Rightarrow> rat" where
  "pow2 e = (if 0 \<le> e then 2 ^ nat e else 1 / 2 ^ nat (- e))"

definition binExponent :: "rat \<Rightarrow> int" where
  "binExponent a =
     (if 1 \<le> a then int (bitLength (nat \<lfloor>a\<rfloor>)) - 1
      else - int (bitLength (nat (- \<lfloor>- (1 / a)\<rfloor> - 1))))"

definition roundHalfEven :: "rat \<Rightarrow> int" where
  "roundHalfEven r =
     (let f = \<lfloor>r\<rfloor>; d = r - of_int f in
      if d < 1 / 2 then f else if 1 / 2 < d then f + 1 else if even f then f else f + 1)"

definition roundDouble :: "rat \<Rightarrow> jsnum" where
  "roundDouble x =
     (if x = 0 then Num 0
      else
        (let a = \<bar>x\<bar>;
             e = max (binExponent a) (- 1022);
             q = pow2 (e - 52);
             m = of_int (roundHalfEven (a / q)) * q
         in if pow2 1024 \<le> m then (if x < 0 then NegInf else PosInf)
            else Num (if x < 0 then - m else m)))"

text \<open>The addition of two numbers: the exact sum, rounded.\<close>

fun jsadd :: "jsnum \<Rightarrow> jsnum \<Rightarrow> jsnum" where
  "jsadd (Num a) (Num b) = roundDouble (a + b)"
| "jsadd NaN _ = NaN"
| "jsadd _ NaN = NaN"
| "jsadd PosInf NegInf = NaN"
| "jsadd NegInf PosInf = NaN"
| "jsadd PosInf _ = PosInf"
| "jsadd _ PosInf = PosInf"
| "jsadd NegInf _ = NegInf"
| "jsadd _ NegInf = NegInf"

definition isDigit :: "16 word \<Rightarrow> bool" where
  "isDigit c = (0x30 \<le> c \<and> c \<le> 0x39)"

definition digitsToNat :: "jsstring \<Rightarrow> nat" where
  "digitsToNat ds = foldl (\<lambda>a c. 10 * a + (unat c - 48)) 0 ds"

text \<open>
  \<open>Number.parseFloat\<close> reads the longest prefix that is a decimal literal, yields the
  double nearest to its value, and \<open>NaN\<close> when there is no such prefix. Its argument in
  this program holds digits, commas and full stops only (see
  \<open>amount_argument_alphabet\<close>), so the sign, exponent, white-space and \<open>Infinity\<close>
  productions of the literal grammar cannot occur and are left out.
\<close>

definition parseFloat :: "jsstring \<Rightarrow> jsnum" where
  "parseFloat s =
     (let ip = takeWhile isDigit s; r = dropWhile isDigit s in
      case r of
        [] \<Rightarrow> if ip = [] then NaN else roundDouble (of_nat (digitsToNat ip))
      | c # r' \<Rightarrow>
          if c = 0x2E then
            (let fp = takeWhile isDigit r' in
             if ip = [] \<and> fp = [] then NaN
             else roundDouble
                    (of_nat (digitsToNat ip) + of_nat (digitsToNat fp) / 10 ^ length fp))
          else if ip = [] then NaN else roundDouble (of_nat (digitsToNat ip)))"

text \<open>
  Two things the JavaScript runtime prints are parameters: \<open>numberText\<close>, the
  exponent notation of a number of magnitude \<open>10^21\<close> or more, and \<open>inheritedText\<close>,
  the text that stands for a property every object inherits (\<open>toString\<close>,
  \<open>constructor\<close>, ...) when it is put into a string, \<open>None\<close> for a name that is not
  inherited.
\<close>

record js_runtime =
  numberText :: "rat \<Rightarrow> jsstring"
  inheritedText :: "jsstring \<Rightarrow> jsstring option"

text \<open>
  \<open>Number.prototype.toFixed(2)\<close>: a number that is not finite prints as its name; a
  negative number prints a minus sign and its absolute value; the exact value of the
  double is scaled by 100 and rounded to the nearest integer, the larger one on a tie.
  From \<open>10^21\<close> on, the number is printed in exponent notation.
\<close>

fun toFixed2 :: "js_runtime \<Rightarrow> jsnum \<Rightarrow> jsstring" where
  "toFixed2 rt NaN = ascii ''NaN''"
| "toFixed2 rt PosInf = ascii ''Infinity''"
| "toFixed2 rt NegInf = ascii ''-Infinity''"
| "toFixed2 rt (Num x) =
     (if 10 ^ 21 \<le> \<bar>x\<bar> then numberText rt x
      else
        (let n = nat \<lfloor>\<bar>x\<bar> * 100 + 1 / 2\<rfloor> in
         (if x < 0 then ascii ''-'' else []) @ showNat (n div 100) @ ascii ''.'' @
         [of_nat (48 + n div 10 mod 10), of_nat (48 + n mod 10)]))"

section \<open>Currency/Amount Parser\<close>

text \<open>
  Both \<open>fetchActivities\<close> (on the activity description) and \<open>fetchTripDetails\<close> /
  \<open>fetchMultipleTripDetails\<close> (on the fare) run
  \<^verbatim>\<open>text.match(/[<rupee>$<euro><pound>]?([\d,]+\.?\d*)/)\<close>, then
  \<^verbatim>\<open>Number.parseFloat(m[1].replace(",", ""))\<close>, or take 0 without a match.
\<close>

definition isCurrencySymbol :: "16 word \<Rightarrow> bool" where
  "isCurrencySymbol c = (c = 0x20B9 \<or> c = 0x24 \<or> c = 0x20AC \<or> c = 0xA3)"

definition isDigitOrComma :: "16 word \<Rightarrow> bool" where
  "isDigitOrComma c = (isDigit c \<or> c = 0x2C)"

text \<open>
  The capture group \<^verbatim>\<open>([\d,]+\.?\d*)\<close> at the head of a string: every quantifier is
  greedy, and none of them ever has to give a character back, because what follows it can
  match the empty string.
\<close>

definition matchGroup :: "jsstring \<Rightarrow> jsstring option" where
  "matchGroup s =
     (let a = takeWhile isDigitOrComma s; r = dropWhile isDigitOrComma s in
      if a = [] then None
      else
        (let d = (case r of [] \<Rightarrow> [] | c # _ \<Rightarrow> if c = 0x2E then [c] else []);
             r2 = drop (length d) r
         in Some (a @ d @ takeWhile isDigit r2)))"

text \<open>
  The whole pattern at the head of a string: the optional symbol is taken first when it is
  there, and given back when the group does not match behind it.
\<close>

definition matchHere :: "jsstring \<Rightarrow> jsstring option" where
  "matchHere s =
     (case s of
        [] \<Rightarrow> None
      | c # cs \<Rightarrow>
          if isCurrencySymbol c then
            (case matchGroup cs of Some g \<Rightarrow> Some g | None \<Rightarrow> matchGroup s)
          else matchGroup s)"

text \<open>\<open>String.prototype.match\<close> without the global flag: the leftmost match.\<close>

fun matchFirst :: "jsstring \<Rightarrow> jsstring option" where
  "matchFirst [] = None"
| "matchFirst (c # cs) =
     (case matchHere (c # cs) of Some g \<Rightarrow> Some g | None \<Rightarrow> matchFirst cs)"

text \<open>
  \<^verbatim>\<open>replace(",", "")\<close> has a string as its pattern, so it replaces the first
  occurrence only.
\<close>

fun replaceFirstComma :: "jsstring \<Rightarrow> jsstring" where
  "replaceFirstComma [] = []"
| "replaceFirstComma (c # cs) = (if c = 0x2C then cs else c # replaceFirstComma cs)"

definition parseAmount :: "jsstring \<Rightarrow> jsnum" where
  "parseAmount text =
     (case matchFirst text of
        Some g \<Rightarrow> parseFloat (replaceFirstComma g)
      | None \<Rightarrow> Num 0)"

definition detectCurrency :: "jsstring \<Rightarrow> jsstring" where
  "detectCurrency text =
     (if includes_str text [0x20B9] then ascii ''INR''
      else if includes_str text [0x20AC] then ascii ''EUR''
      else if includes_str text [0xA3] then ascii ''GBP''
      else ascii ''USD'')"

section \<open>Vehicle Classifier\<close>

text \<open>
  \<open>String.prototype.toLowerCase\<close> applies the Unicode case mapping. On ASCII it adds
  32 to the capital letters; what it does to a code unit outside ASCII (which may become
  several code units) is the parameter \<open>lc\<close>. The mapping is taken code unit by code
  unit: the rules of the standard that look at the neighbours of a character (the final
  sigma, the characters outside the basic plane) touch no keyword of the program.
\<close>

definition lowerChar :: "(16 word \<Rightarrow> jsstring) \<Rightarrow> 16 word \<Rightarrow> jsstring" where
  "lowerChar lc c =
     (if c < 0x80 then (if 0x41 \<le> c \<and> c \<le> 0x5A then [c + 32] else [c]) else lc c)"

definition toLowerCase :: "(16 word \<Rightarrow> jsstring) \<Rightarrow> jsstring \<Rightarrow> jsstring" where
  "toLowerCase lc s = concat (map (lowerChar lc) s)"

record vehicle_info =
  vi_type :: jsstring
  isAuto :: bool
  isBike :: bool

text \<open>
  \<open>getVehicleInfo\<close>. The label comes from the provider's response and may be missing
  (\<open>None\<close>); a missing and an empty label both count as the empty string and get the type
  \<open>Car\<close>. The field \<open>isAuto\<close> of the result is the flag that selects the simple
  receipt flow.
\<close>

definition getVehicleInfo :: "(16 word \<Rightarrow> jsstring) \<Rightarrow> jsstring option \<Rightarrow> vehicle_info" where
  "getVehicleInfo lc vehicleType =
     (let lower = (case vehicleType of None \<Rightarrow> [] | Some v \<Rightarrow> toLowerCase lc v);
          bike = (includes_str lower (ascii ''moto'') \<or> includes_str lower (ascii ''bike''));
          auto = (includes_str lower (ascii ''auto'') \<or> includes_str lower (ascii ''tuk''))
      in \<lparr> vi_type = (case vehicleType of None \<Rightarrow> ascii ''Car''
                       | Some v \<Rightarrow> if v = [] then ascii ''Car'' else v),
           isAuto = (auto \<or> bike),
           isBike = bike \<rparr>)"

text \<open>
  \<open>getVehicleIcon\<close> of the rides table is the place where the three categories appear as
  such: the bike keywords are looked at first, then the auto keywords.
\<close>

datatype vehicle_category = Standard | Auto | Bike

definition getVehicleIcon :: "(16 word \<Rightarrow> jsstring) \<Rightarrow> jsstring option \<Rightarrow> vehicle_category" where
  "getVehicleIcon lc vehicleType =
     (let lower = (case vehicleType of None \<Rightarrow> [] | Some v \<Rightarrow> toLowerCase lc v) in
      if includes_str lower (ascii ''moto'') \<or> includes_str lower (ascii ''bike'') then Bike
      else if includes_str lower (ascii ''auto'') \<or> includes_str lower (ascii ''tuk'') then Auto
      else Standard)"

text \<open>
  The classification from an image URL, in \<open>fetchActivities\<close>: three case-sensitive
  substring tests on the light image URL.
\<close>

definition isAutoRideFromImage :: "jsstring \<Rightarrow> bool" where
  "isAutoRideFromImage url =
     (includes_str url (ascii ''TukTuk'') \<or> includes_str url (ascii ''Auto'') \<or>
      includes_str url (ascii ''Moto''))"

section \<open>Data model\<close>

text \<open>
  \<open>RideData\<close> (types/rides.ts) and \<open>TransformedRide\<close> (types/uber-api.ts) share ten
  fields; the first adds \<open>invoiceUrl\<close>, the second \<open>mapUrl\<close> and \<open>isAutoRide\<close>.
  The optional \<open>vehicleType\<close> and \<open>status\<close> of \<open>RideData\<close> are only ever read
  through \<^verbatim>\<open>x || default\<close>, which treats a missing and an empty string alike, so they are
  plain strings here.
\<close>

record ride_core =
  rideId :: jsstring
  startTime :: jsstring
  endTime :: jsstring
  startLocation :: jsstring
  endLocation :: jsstring
  totalAmount :: jsnum
  currency :: jsstring
  driverName :: jsstring
  vehicleType :: jsstring
  status :: jsstring

record TransformedRide = ride_core +
  mapUrl :: jsstring
  isAutoRide :: bool

record RideData = ride_core +
  invoiceUrl :: jsstring

text \<open>
  The summary of a selection: \<open>RidesSummary\<close> when the rides are \<open>RideData\<close>, the
  dashboard's memoised \<open>summary\<close> when they are \<open>TransformedRide\<close>.
\<close>

record 'r rides_summary =
  selectedCount :: nat
  summaryTotal :: jsnum
  summaryCurrency :: jsstring
  rides :: "'r list"

record UberAuthCredentials =
  cookie :: jsstring
  csrfToken :: jsstring

record UberCurrentUser =
  firstName :: jsstring
  lastName :: jsstring

section \<open>Selection summary (dashboard)\<close>

datatype status_filter = AllStatuses | CompletedOnly

definition filteredRides :: "status_filter \<Rightarrow> TransformedRide list \<Rightarrow> TransformedRide list" where
  "filteredRides statusFilter rs =
     (case statusFilter of
        AllStatuses \<Rightarrow> rs
      | CompletedOnly \<Rightarrow> filter (\<lambda>ride. status ride = ascii ''COMPLETED'') rs)"

text \<open>
  The fallback currency of the source is the three code units U+00E2, U+201A, U+00B9 (the
  bytes of a rupee sign read in a one-byte encoding), as the file has them.
\<close>

definition fallbackCurrency :: jsstring where
  "fallbackCurrency = [0xE2, 0x201A, 0xB9]"

text \<open>
  The \<open>summary\<close> memo of \<open>UberReceiptsDashboard\<close>. \<open>rowSelection\<close> maps a ride
  identifier to whether its row is selected. The sum is a left fold from 0, as
  \<open>reduce\<close> computes it; \<^verbatim>\<open>selectedRides[0]?.currency || fallback\<close> takes the
  fallback when there is no first ride or its currency is the empty string.
\<close>

definition summary ::
  "TransformedRide list \<Rightarrow> (jsstring \<Rightarrow> bool) \<Rightarrow> TransformedRide rides_summary" where
  "summary filtered rowSelection =
     (let selectedRides = filter (\<lambda>ride. rowSelection (rideId ride)) filtered;
          total = foldl (\<lambda>sum ride. jsadd sum (totalAmount ride)) (Num 0) selectedRides
      in \<lparr> selectedCount = length selectedRides,
           summaryTotal = total,
           summaryCurrency =
             (case selectedRides of
                [] \<Rightarrow> fallbackCurrency
              | r # _ \<Rightarrow> if currency r = [] then fallbackCurrency else currency r),
           rides = selectedRides \<rparr>)"

text \<open>The handlers copy every selected ride into a \<open>RideData\<close> with an empty invoice URL.\<close>

definition toRideData :: "TransformedRide \<Rightarrow> RideData" where
  "toRideData r =
     \<lparr> rideId = rideId r, startTime = startTime r, endTime = endTime r,
       startLocation = startLocation r, endLocation = endLocation r,
       totalAmount = totalAmount r, currency = currency r, driverName = driverName r,
       vehicleType = vehicleType r, status = status r, invoiceUrl = [] \<rparr>"

section \<open>Export Renderer\<close>

text \<open>
  Dates are parsed and printed by date-fns and the \<open>Date\<close> object. They are parameters:
  \<open>parseISO\<close> and \<open>newDate\<close> yield \<open>None\<close> for an invalid date, \<open>formatDate\<close> prints
  a valid date in a pattern, \<open>toISOString\<close> prints it in ISO form.
\<close>

record 'd date_lib =
  parseISO :: "jsstring \<Rightarrow> 'd option"
  newDate :: "jsstring \<Rightarrow> 'd option"
  formatDate :: "'d \<Rightarrow> jsstring \<Rightarrow> jsstring"
  toISOString :: "'d \<Rightarrow> jsstring"

definition safeParseDate :: "'d date_lib \<Rightarrow> jsstring \<Rightarrow> 'd option" where
  "safeParseDate lib dateStr =
     (if dateStr = [] then None
      else case parseISO lib dateStr of
             Some isoDate \<Rightarrow> Some isoDate
           | None \<Rightarrow>
               (case newDate lib dateStr of
                  Some directDate \<Rightarrow> Some directDate
                | None \<Rightarrow> None))"

text \<open>
  \<open>safeFormatDate\<close>; on a date that does not parse it returns
  \<^verbatim>\<open>fallback || dateStr || "N/A"\<close>, the first of the three that is not empty.
\<close>

definition safeFormatDate ::
  "'d date_lib \<Rightarrow> jsstring \<Rightarrow> jsstring \<Rightarrow> jsstring option \<Rightarrow> jsstring" where
  "safeFormatDate lib dateStr formatStr fallback =
     (case safeParseDate lib dateStr of
        Some date \<Rightarrow> formatDate lib date formatStr
      | None \<Rightarrow>
          (case fallback of
             Some f \<Rightarrow> if f \<noteq> [] then f else if dateStr \<noteq> [] then dateStr else ascii ''N/A''
           | None \<Rightarrow> if dateStr \<noteq> [] then dateStr else ascii ''N/A''))"

text \<open>The white space of \<open>String.prototype.trim\<close> (white space and line terminators).\<close>

definition isWhiteSpace :: "16 word \<Rightarrow> bool" where
  "isWhiteSpace c =
     (c = 0x09 \<or> c = 0x0A \<or> c = 0x0B \<or> c = 0x0C \<or> c = 0x0D \<or> c = 0x20 \<or> c = 0xA0 \<or>
      c = 0x1680 \<or> (0x2000 \<le> c \<and> c \<le> 0x200A) \<or> c = 0x2028 \<or> c = 0x2029 \<or>
      c = 0x202F \<or> c = 0x205F \<or> c = 0x3000 \<or> c = 0xFEFF)"

definition trim :: "jsstring \<Rightarrow> jsstring" where
  "trim s = rev (dropWhile isWhiteSpace (rev (dropWhile isWhiteSpace s)))"

text \<open>
  \<open>sanitizeText\<close> walks the string by code point and tests the first code unit of each.
  A code point of two code units starts with a surrogate, which is outside both ranges, and
  so is its second half: filtering code unit by code unit keeps the same characters.
\<close>

definition sanitizeText :: "jsstring \<Rightarrow> jsstring" where
  "sanitizeText text =
     trim (filter (\<lambda>code. (32 \<le> code \<and> code \<le> 126) \<or> (160 \<le> code \<and> code \<le> 383)) text)"

text \<open>
  \<open>getCurrencySymbol\<close> looks the code up in an object literal of four entries. A code
  that is none of them but names an inherited property finds that property, whose text is
  then printed; any other code is printed with a space behind it.
\<close>

definition getCurrencySymbol :: "js_runtime \<Rightarrow> jsstring \<Rightarrow> jsstring" where
  "getCurrencySymbol rt cur =
     (if cur = ascii ''INR'' then [0x20B9]
      else if cur = ascii ''USD'' then ascii ''$''
      else if cur = ascii ''EUR'' then [0x20AC]
      else if cur = ascii ''GBP'' then [0xA3]
      else case inheritedText rt cur of
             Some inherited \<Rightarrow> inherited
           | None \<Rightarrow> cur @ ascii '' '')"

definition formatCurrency :: "js_runtime \<Rightarrow> jsnum \<Rightarrow> jsstring \<Rightarrow> jsstring" where
  "formatCurrency rt amount cur = getCurrencySymbol rt cur @ toFixed2 rt amount"

definition orElse :: "jsstring \<Rightarrow> jsstring \<Rightarrow> jsstring" where
  "orElse s d = (if s = [] then d else s)"

text \<open>The body of the table of \<open>generateSummaryPdf\<close>: one row per ride, then the totals.\<close>

definition pdfRideRow ::
  "'d date_lib \<Rightarrow> js_runtime \<Rightarrow> nat \<Rightarrow> RideData \<Rightarrow> jsstring list" where
  "pdfRideRow lib rt index ride =
     [ showNat (index + 1),
       safeFormatDate lib (startTime ride) (ascii ''MMM d, yyyy HH:mm'') None,
       safeFormatDate lib (endTime ride) (ascii ''MMM d, yyyy HH:mm'') (Some (ascii ''N/A'')),
       sanitizeText (orElse (driverName ride) (ascii ''N/A'')),
       sanitizeText (orElse (vehicleType ride) (ascii ''N/A'')),
       sanitizeText (orElse (startLocation ride) (ascii ''N/A'')),
       sanitizeText (orElse (endLocation ride) (ascii ''N/A'')),
       formatCurrency rt (totalAmount ride) (currency ride) ]"

definition pdfTotalsRow :: "js_runtime \<Rightarrow> RideData rides_summary \<Rightarrow> jsstring list" where
  "pdfTotalsRow rt s =
     [ [], [], [], [], [], [], ascii ''Grand Total:'',
       formatCurrency rt (summaryTotal s) (summaryCurrency s) ]"

definition pdfTableData ::
  "'d date_lib \<Rightarrow> js_runtime \<Rightarrow> RideData rides_summary \<Rightarrow> jsstring list list" where
  "pdfTableData lib rt s =
     map (\<lambda>(index, ride). pdfRideRow lib rt index ride) (enumerate 0 (rides s)) @
     [pdfTotalsRow rt s]"

text \<open>\<open>generateCsv\<close>.\<close>

definition csvQuote :: "jsstring \<Rightarrow> jsstring" where
  "csvQuote s =
     ascii ''\"'' @ concat (map (\<lambda>c. if c = 0x22 then [0x22, 0x22] else [c]) s) @ ascii ''\"''"

definition csvHeaders :: "jsstring list" where
  "csvHeaders =
     [ ascii ''Ride ID'', ascii ''Pickup'', ascii ''Dropoff'', ascii ''Driver'',
       ascii ''Vehicle Type'', ascii ''Status'', ascii ''Pickup Address'',
       ascii ''Destination Address'', ascii ''Amount'', ascii ''Currency'' ]"

definition csvRideRow :: "'d date_lib \<Rightarrow> js_runtime \<Rightarrow> RideData \<Rightarrow> jsstring list" where
  "csvRideRow lib rt ride =
     (let startDate = safeParseDate lib (startTime ride);
          endDate = safeParseDate lib (endTime ride)
      in [ rideId ride,
           (case startDate of Some d \<Rightarrow> toISOString lib d | None \<Rightarrow> []),
           (case endDate of Some d \<Rightarrow> toISOString lib d | None \<Rightarrow> []),
           csvQuote (driverName ride),
           csvQuote (vehicleType ride),
           csvQuote (status ride),
           csvQuote (startLocation ride),
           csvQuote (endLocation ride),
           toFixed2 rt (totalAmount ride),
           currency ride ])"

definition csvTotalsRow :: "js_runtime \<Rightarrow> RideData rides_summary \<Rightarrow> jsstring list" where
  "csvTotalsRow rt s =
     [ [], [], [], [], [], [], [], ascii ''Total:'', toFixed2 rt (summaryTotal s),
       summaryCurrency s ]"

definition csvRows ::
  "'d date_lib \<Rightarrow> js_runtime \<Rightarrow> RideData rides_summary \<Rightarrow> jsstring list list" where
  "csvRows lib rt s = map (csvRideRow lib rt) (rides s) @ [csvTotalsRow rt s]"

definition generateCsv ::
  "'d date_lib \<Rightarrow> js_runtime \<Rightarrow> RideData rides_summary \<Rightarrow> jsstring" where
  "generateCsv lib rt s =
     join (ascii ''\<newline>'')
       (join (ascii '','') csvHeaders # map (join (ascii '','')) (csvRows lib rt s))"

section \<open>Activity Pager\<close>

text \<open>
  What one call of the server function \<open>fetchActivities\<close> returns: the activities of the
  page, the continuation token (\<open>null\<close> is \<open>None\<close>) and the optional error message.
\<close>

record activities_page =
  activities :: "TransformedRide list"
  nextPageToken :: "jsstring option"
  pageError :: "jsstring option"

text \<open>
  The two tests the loop makes are truthiness tests: \<^verbatim>\<open>if (result.error)\<close> holds for an
  error message that is there and not empty, \<^verbatim>\<open>if (!result.nextPageToken)\<close> for a token
  that is \<open>null\<close> or empty.
\<close>

definition reportedError :: "activities_page \<Rightarrow> jsstring option" where
  "reportedError p =
     (case pageError p of None \<Rightarrow> None | Some e \<Rightarrow> if e = [] then None else Some e)"

definition pageFailed :: "activities_page \<Rightarrow> bool" where
  "pageFailed p = (reportedError p \<noteq> None)"

definition hasNextPage :: "activities_page \<Rightarrow> bool" where
  "hasNextPage p = (case nextPageToken p of None \<Rightarrow> False | Some t \<Rightarrow> t \<noteq> [])"

text \<open>
  The state of the paging loop of \<open>handleFetchRides\<close>: the activities gathered, the page
  token sent with every request so far (\<open>None\<close> for the first request, which carries none),
  and what was written to the error console.
\<close>

record pager_state =
  allActivities :: "TransformedRide list"
  pageRequests :: "jsstring option list"
  pagerErrors :: "jsstring list"

definition pagerInit :: pager_state where
  "pagerInit = \<lparr> allActivities = [], pageRequests = [], pagerErrors = [] \<rparr>"

text \<open>
  The \<^verbatim>\<open>while (true)\<close> loop. The provider is the sequence of its answers, one for each
  request in turn. The loop ends only by one of its two \<open>break\<close>s; a provider that keeps
  sending tokens keeps it running, and on a finite sequence of answers that are all of this
  kind the result is \<open>None\<close>: the loop is still asking.
\<close>

fun pagerLoop ::
  "activities_page list \<Rightarrow> jsstring option \<Rightarrow> pager_state \<Rightarrow> pager_state option" where
  "pagerLoop [] pageToken st = None"
| "pagerLoop (result # later) pageToken st =
     (let st1 = st \<lparr> pageRequests := pageRequests st @ [pageToken] \<rparr> in
      case reportedError result of
        Some e \<Rightarrow> Some (st1 \<lparr> pagerErrors := pagerErrors st1 @ [e] \<rparr>)
      | None \<Rightarrow>
          (let st2 = st1 \<lparr> allActivities := allActivities st1 @ activities result \<rparr> in
           if \<not> hasNextPage result then Some st2
           else pagerLoop later (nextPageToken result) st2))"

section \<open>Detail Enricher\<close>

text \<open>The parts of the \<open>GetTrip\<close> response that the program reads.\<close>

record trip_response =
  tripUuid :: jsstring
  beginTripTime :: jsstring
  dropoffTime :: jsstring
  waypoints :: "jsstring list"
  driver :: jsstring
  fare :: jsstring
  tripStatus :: jsstring
  mapURL :: jsstring
  receiptVehicleType :: "jsstring option"

text \<open>The ride built from a response in \<open>fetchMultipleTripDetails\<close>.\<close>

definition transformTrip :: "(16 word \<Rightarrow> jsstring) \<Rightarrow> trip_response \<Rightarrow> TransformedRide" where
  "transformTrip lc resp =
     (let vehicleInfo = getVehicleInfo lc (receiptVehicleType resp) in
      \<lparr> rideId = tripUuid resp,
        startTime = beginTripTime resp,
        endTime = dropoffTime resp,
        startLocation = (case waypoints resp of [] \<Rightarrow> [] | w # _ \<Rightarrow> w),
        endLocation = (if waypoints resp = [] then [] else last (waypoints resp)),
        totalAmount = parseAmount (fare resp),
        currency = detectCurrency (fare resp),
        driverName = driver resp,
        vehicleType = vi_type vehicleInfo,
        status = tripStatus resp,
        mapUrl = mapURL resp,
        isAutoRide = isAuto vehicleInfo \<rparr>)"

definition validAuth :: "UberAuthCredentials \<Rightarrow> bool" where
  "validAuth a = (cookie a \<noteq> [] \<and> csrfToken a \<noteq> [])"

text \<open>
  \<open>fetchMultipleTripDetails\<close>. The provider is \<open>detail\<close>: for a trip identifier, the
  response, or the message of whatever was thrown while the response was fetched and read.
  The input validator rejects the call (\<open>Inl\<close>) before any request; past it, every
  identifier is handled under its own \<open>catch\<close>, and the results are split into rides and
  errors in the order of the identifiers.
\<close>

definition fetchMultipleTripDetails ::
  "(16 word \<Rightarrow> jsstring) \<Rightarrow> UberAuthCredentials \<Rightarrow> (jsstring \<Rightarrow> jsstring + trip_response) \<Rightarrow>
   jsstring list \<Rightarrow> jsstring + (TransformedRide list \<times> jsstring list)" where
  "fetchMultipleTripDetails lc auth detail tripUUIDs =
     (if \<not> validAuth auth then Inl (ascii ''Auth credentials are required'')
      else if tripUUIDs = [] then Inl (ascii ''Trip UUIDs are required'')
      else
        (let results = map (\<lambda>tripUUID.
               case detail tripUUID of
                 Inr resp \<Rightarrow> Inr (transformTrip lc resp)
               | Inl msg \<Rightarrow> Inl (ascii ''Failed to fetch '' @ tripUUID @ ascii '': '' @ msg))
               tripUUIDs
         in Inr (concat (map (\<lambda>r. case r of Inr ride \<Rightarrow> [ride] | Inl _ \<Rightarrow> []) results),
                 concat (map (\<lambda>r. case r of Inr _ \<Rightarrow> [] | Inl e \<Rightarrow> [e]) results))))"

definition batchSize :: nat where
  "batchSize = 10"

text \<open>\<open>Array.prototype.slice\<close> on indices within \<open>0 \<le> i \<le> j\<close>.\<close>

definition slice_arr :: "'a list \<Rightarrow> nat \<Rightarrow> nat \<Rightarrow> 'a list" where
  "slice_arr xs i j = take (j - i) (drop i xs)"

text \<open>
  The state of the enrichment loop of \<open>handleFetchRides\<close>: the rides gathered; in the
  order of the calls, the batch of identifiers sent with every call of
  \<open>fetchMultipleTripDetails\<close>; and the course of the calls, an event when a call is made
  and an event when its awaited result is there.
\<close>

datatype batch_event = BatchCalled "jsstring list" | BatchReturned "jsstring list"

record enrich_state =
  enrichedRides :: "TransformedRide list"
  issuedBatches :: "jsstring list list"
  batchEvents :: "batch_event list"

definition enrichInit :: enrich_state where
  "enrichInit = \<lparr> enrichedRides = [], issuedBatches = [], batchEvents = [] \<rparr>"

text \<open>
  One round of the loop, for one batch: the rides the call returned, or, when it returned
  none, the activities whose identifier is in the batch.
\<close>

definition enrichBatch ::
  "(16 word \<Rightarrow> jsstring) \<Rightarrow> UberAuthCredentials \<Rightarrow> (jsstring \<Rightarrow> jsstring + trip_response) \<Rightarrow>
   TransformedRide list \<Rightarrow> jsstring list \<Rightarrow> jsstring + TransformedRide list" where
  "enrichBatch lc auth detail acts batch =
     (case fetchMultipleTripDetails lc auth detail batch of
        Inl e \<Rightarrow> Inl e
      | Inr detailsResult \<Rightarrow>
          if fst detailsResult \<noteq> [] then Inr (fst detailsResult)
          else Inr (filter (\<lambda>a. rideId a \<in> set batch) acts))"

text \<open>
  The loop \<^verbatim>\<open>for (let i = 0; i < tripUUIDs.length; i += batchSize)\<close>; each call is awaited
  before the next round starts. A rejected call leaves the loop (\<open>Inl\<close>), to the
  \<open>catch\<close> of the handler.
\<close>

function enrichLoop ::
  "(16 word \<Rightarrow> jsstring) \<Rightarrow> UberAuthCredentials \<Rightarrow> (jsstring \<Rightarrow> jsstring + trip_response) \<Rightarrow>
   TransformedRide list \<Rightarrow> jsstring list \<Rightarrow> nat \<Rightarrow> enrich_state \<Rightarrow> jsstring + enrich_state" where
  "enrichLoop lc auth detail acts tripUUIDs i st =
     (if i < length tripUUIDs then
        (let batch = slice_arr tripUUIDs i (i + batchSize);
             called = st \<lparr> issuedBatches := issuedBatches st @ [batch],
                           batchEvents := batchEvents st @ [BatchCalled batch] \<rparr>
         in case enrichBatch lc auth detail acts batch of
              Inl e \<Rightarrow> Inl e
            | Inr rs \<Rightarrow>
                enrichLoop lc auth detail acts tripUUIDs (i + batchSize)
                  (called \<lparr> enrichedRides := enrichedRides called @ rs,
                            batchEvents := batchEvents called @ [BatchReturned batch] \<rparr>))
      else Inr st)"
  by pat_completeness auto
termination
  by (relation "measure (\<lambda>(lc, auth, detail, acts, tripUUIDs, i, st). length tripUUIDs - i)")
     (auto simp: batchSize_def)

declare enrichLoop.simps [simp del]

text \<open>
  \<open>handleFetchRides\<close> as a whole, on the rides of the dashboard state: nothing happens
  without credentials; the pager runs, then the enricher on the identifiers of the
  activities; an exception anywhere leaves the rides as they were. The result is \<open>None\<close>
  when the paging loop does not end on the given answers.
\<close>

definition handleFetchRides ::
  "(16 word \<Rightarrow> jsstring) \<Rightarrow> UberAuthCredentials option \<Rightarrow> activities_page list \<Rightarrow>
   (jsstring \<Rightarrow> jsstring + trip_response) \<Rightarrow> TransformedRide list \<Rightarrow> TransformedRide list option" where
  "handleFetchRides lc auth pages detail oldRides =
     (case auth of
        None \<Rightarrow> Some oldRides
      | Some a \<Rightarrow>
          if \<not> validAuth a then Some oldRides
          else
            (case pagerLoop pages None pagerInit of
               None \<Rightarrow> None
             | Some pst \<Rightarrow>
                 if allActivities pst = [] then Some []
                 else
                   (case enrichLoop lc a detail (allActivities pst)
                           (map rideId (allActivities pst)) 0 enrichInit of
                      Inl e \<Rightarrow> Some oldRides
                    | Inr est \<Rightarrow> Some (enrichedRides est))))"

section \<open>Receipt Resolver\<close>

text \<open>
  The requests the export side sends: the invoice-file listing of a trip, the download of
  a document from a URL, and the download of the font of the cover document.
\<close>

datatype request = InvoiceFilesRequest jsstring | PdfRequest jsstring | FontRequest

text \<open>
  The answer to an invoice-file listing: the request failed, or it brought a list of
  download URLs, which may be missing (\<open>None\<close>) in a response of the wrong shape.
\<close>

datatype invoice_response = InvoiceFailed | InvoiceFiles "jsstring list option"

definition receiptUrl :: "jsstring \<Rightarrow> nat \<Rightarrow> jsstring" where
  "receiptUrl tripUUID timestamp =
     ascii ''https://riders.uber.com/trips/'' @ tripUUID @
     ascii ''/receipt?contentType=PDF&timestamp='' @ showNat timestamp"

text \<open>
  The choice of the URL, the same text in \<open>fetchReceiptPdf\<close> and in
  \<open>fetchMultipleReceiptPdfs\<close>; \<open>now\<close> is the reading of \<open>Date.now()\<close>. The result
  is the URL and the requests sent to find it.
\<close>

definition resolvePdfUrl ::
  "(jsstring \<Rightarrow> invoice_response) \<Rightarrow> nat \<Rightarrow> jsstring \<Rightarrow> bool \<Rightarrow> jsstring \<times> request list" where
  "resolvePdfUrl invoice now tripUUID autoRide =
     (if autoRide then (receiptUrl tripUUID now, [])
      else
        (case invoice tripUUID of
           InvoiceFailed \<Rightarrow> (receiptUrl tripUUID now, [InvoiceFilesRequest tripUUID])
         | InvoiceFiles None \<Rightarrow> (receiptUrl tripUUID now, [InvoiceFilesRequest tripUUID])
         | InvoiceFiles (Some []) \<Rightarrow> (receiptUrl tripUUID now, [InvoiceFilesRequest tripUUID])
         | InvoiceFiles (Some (file # _)) \<Rightarrow> (file, [InvoiceFilesRequest tripUUID])))"

record pdf_result =
  pdfRideId :: jsstring
  pdfBase64 :: "jsstring option"
  pdfError :: "jsstring option"

text \<open>
  One trip: the URL is chosen, then the document is fetched once; \<open>pdfFetch\<close> answers a
  URL with the payload in base 64 or with the message of the failure.
\<close>

definition fetchOneReceipt ::
  "(jsstring \<Rightarrow> invoice_response) \<Rightarrow> (jsstring \<Rightarrow> jsstring + jsstring) \<Rightarrow> nat \<Rightarrow>
   jsstring \<Rightarrow> bool \<Rightarrow> pdf_result \<times> request list" where
  "fetchOneReceipt invoice pdfFetch now tripUUID autoRide =
     (let (pdfUrl, reqs) = resolvePdfUrl invoice now tripUUID autoRide in
      case pdfFetch pdfUrl of
        Inr base64 \<Rightarrow>
          (\<lparr> pdfRideId = tripUUID, pdfBase64 = Some base64, pdfError = None \<rparr>,
           reqs @ [PdfRequest pdfUrl])
      | Inl msg \<Rightarrow>
          (\<lparr> pdfRideId = tripUUID, pdfBase64 = None, pdfError = Some msg \<rparr>,
           reqs @ [PdfRequest pdfUrl]))"

definition fetchReceiptPdf ::
  "UberAuthCredentials \<Rightarrow> (jsstring \<Rightarrow> invoice_response) \<Rightarrow> (jsstring \<Rightarrow> jsstring + jsstring) \<Rightarrow>
   nat \<Rightarrow> jsstring \<Rightarrow> bool \<Rightarrow> jsstring + pdf_result \<times> request list" where
  "fetchReceiptPdf auth invoice pdfFetch now tripUUID autoRide =
     (if \<not> validAuth auth then Inl (ascii ''Auth credentials are required'')
      else if tripUUID = [] then Inl (ascii ''Trip UUID is required'')
      else Inr (fetchOneReceipt invoice pdfFetch now tripUUID autoRide))"

text \<open>
  \<open>fetchMultipleReceiptPdfs\<close>: every trip is resolved on its own, and \<open>Promise.all\<close>
  returns the results in the order of the trips. \<open>clock i\<close> is what \<open>Date.now()\<close> reads
  for the trip at position \<open>i\<close>. The requests stay grouped by trip, since the trips run
  concurrently and no order holds between the requests of two of them.
\<close>

definition fetchMultipleReceiptPdfs ::
  "UberAuthCredentials \<Rightarrow> (jsstring \<Rightarrow> invoice_response) \<Rightarrow> (jsstring \<Rightarrow> jsstring + jsstring) \<Rightarrow>
   (nat \<Rightarrow> nat) \<Rightarrow> (jsstring \<times> bool) list \<Rightarrow> jsstring + (pdf_result \<times> request list) list" where
  "fetchMultipleReceiptPdfs auth invoice pdfFetch clock trips =
     (if \<not> validAuth auth then Inl (ascii ''Auth credentials are required'')
      else if trips = [] then Inl (ascii ''At least one trip is required'')
      else Inr (map (\<lambda>(i, trip). fetchOneReceipt invoice pdfFetch (clock i) (fst trip) (snd trip))
                  (enumerate 0 trips)))"

section \<open>Document Merge Engine\<close>

text \<open>
  A PDF document is the list of its pages. \<open>load\<close> stands for decoding the base-64
  payload and \<open>PDFDocument.load\<close> with \<open>copyPages\<close>: the pages of the document, or
  \<open>None\<close> when one of them throws. Pages are added only after all of that has succeeded,
  so a document that fails adds no page.
\<close>

record 'p merge_state =
  mergedPages :: "'p list"
  mergeFailures :: "jsstring list"

fun mergeReceipts ::
  "(jsstring \<Rightarrow> 'p list option) \<Rightarrow> (jsstring \<times> jsstring) list \<Rightarrow> 'p merge_state \<Rightarrow> 'p merge_state" where
  "mergeReceipts load [] st = st"
| "mergeReceipts load (pdfData # rest) st =
     mergeReceipts load rest
       (case load (snd pdfData) of
          Some copiedPages \<Rightarrow> st \<lparr> mergedPages := mergedPages st @ copiedPages \<rparr>
        | None \<Rightarrow> st \<lparr> mergeFailures := mergeFailures st @ [fst pdfData] \<rparr>)"

text \<open>\<open>loadGoogleSansFont\<close> with its cache: the font, the cache afterwards, the requests.\<close>

definition loadGoogleSansFont ::
  "'f option \<Rightarrow> 'f option \<Rightarrow> (jsstring + 'f) \<times> 'f option \<times> request list" where
  "loadGoogleSansFont cachedFontBytes response =
     (case cachedFontBytes of
        Some bytes \<Rightarrow> (Inr bytes, cachedFontBytes, [])
      | None \<Rightarrow>
          (case response of
             None \<Rightarrow> (Inl (ascii ''Failed to load Google Sans Flex font''), None, [FontRequest])
           | Some bytes \<Rightarrow> (Inr bytes, Some bytes, [FontRequest])))"

text \<open>What jsPDF is given to draw: the account line, the date line and the table body.\<close>

record cover_document =
  coverAccount :: "jsstring option"
  coverDate :: jsstring
  coverTable :: "jsstring list list"

text \<open>
  The collaborators of the export: the date library and today's date, the JavaScript
  runtime, jsPDF with autoTable (\<open>renderCover\<close>, from the cover to its pages: a jsPDF
  document is created with a first page and only ever gains pages, so the result is a first
  page and the pages after it), pdf-lib (\<open>loadPdf\<close>, and \<open>blankPage\<close>, the page
  that its \<open>save\<close> puts into a document without pages), and the answers of the network.
\<close>

record ('d, 'p, 'f) export_env =
  dateLib :: "'d date_lib"
  today :: 'd
  runtime :: js_runtime
  renderCover :: "cover_document \<Rightarrow> 'p \<times> 'p list"
  loadPdf :: "jsstring \<Rightarrow> 'p list option"
  blankPage :: 'p
  fontResponse :: "'f option"
  invoiceFiles :: "jsstring \<Rightarrow> invoice_response"
  pdfResponse :: "jsstring \<Rightarrow> jsstring + jsstring"
  clock :: "nat \<Rightarrow> nat"

definition coverPages :: "('d, 'p, 'f) export_env \<Rightarrow> cover_document \<Rightarrow> 'p list" where
  "coverPages env cover = (case renderCover env cover of (firstPage, morePages) \<Rightarrow> firstPage # morePages)"

text \<open>\<open>PDFDocument.save\<close>: a document without pages is given one blank page.\<close>

definition savePdf :: "('d, 'p, 'f) export_env \<Rightarrow> 'p list \<Rightarrow> 'p list" where
  "savePdf env pages = (if pages = [] then [blankPage env] else pages)"

record 'p summary_pdf =
  pdfPages :: "jsstring + 'p list"
  pdfRequests :: "request list"
  pdfMergeFailures :: "jsstring list"

text \<open>
  \<open>generateSummaryPdf\<close>: the cover (\<open>summaryCover\<close>: title lines and table) is
  drawn; without receipts it is the result; with receipts its pages open the merged
  document, the receipts follow in their order, and the document is saved.
\<close>

definition summaryCover ::
  "('d, 'p, 'f) export_env \<Rightarrow> RideData rides_summary \<Rightarrow> jsstring option \<Rightarrow> cover_document" where
  "summaryCover env s accountName =
     \<lparr> coverAccount =
         (case accountName of None \<Rightarrow> None | Some n \<Rightarrow> if n = [] then None else Some n),
       coverDate = formatDate (dateLib env) (today env) (ascii ''MMMM d, yyyy''),
       coverTable = pdfTableData (dateLib env) (runtime env) s \<rparr>"

definition generateSummaryPdf ::
  "('d, 'p, 'f) export_env \<Rightarrow> 'f option \<Rightarrow> RideData rides_summary \<Rightarrow> jsstring option \<Rightarrow>
   (jsstring \<times> jsstring) list option \<Rightarrow> 'p summary_pdf \<times> 'f option" where
  "generateSummaryPdf env cache s accountName pdfDataArray =
     (case loadGoogleSansFont cache (fontResponse env) of
        (Inl e, cache', reqs) \<Rightarrow>
          (\<lparr> pdfPages = Inl e, pdfRequests = reqs, pdfMergeFailures = [] \<rparr>, cache')
      | (Inr fontBytes, cache', reqs) \<Rightarrow>
          (let summaryPages = coverPages env (summaryCover env s accountName)
           in case pdfDataArray of
                None \<Rightarrow>
                  (\<lparr> pdfPages = Inr summaryPages, pdfRequests = reqs,
                     pdfMergeFailures = [] \<rparr>, cache')
              | Some arr \<Rightarrow>
                  if arr = [] then
                    (\<lparr> pdfPages = Inr summaryPages, pdfRequests = reqs,
                       pdfMergeFailures = [] \<rparr>, cache')
                  else
                    (let st = mergeReceipts (loadPdf env) arr
                                \<lparr> mergedPages = summaryPages, mergeFailures = [] \<rparr>
                     in (\<lparr> pdfPages = Inr (savePdf env (mergedPages st)), pdfRequests = reqs,
                           pdfMergeFailures = mergeFailures st \<rparr>, cache'))))"

section \<open>Export entry points (dashboard handlers)\<close>

datatype 'p artifact = PdfFile "'p list" | CsvFile jsstring

text \<open>
  What a handler does to the outside: the files it hands to \<open>downloadBlob\<close> (name and
  content), the network requests it causes, and its lines on the error console.
\<close>

record 'p handler_outcome =
  downloads :: "(jsstring \<times> 'p artifact) list"
  networkRequests :: "request list"
  consoleErrors :: "jsstring list"

definition nothingDone :: "'p handler_outcome" where
  "nothingDone = \<lparr> downloads = [], networkRequests = [], consoleErrors = [] \<rparr>"

definition accountNameOf :: "UberCurrentUser option \<Rightarrow> jsstring option" where
  "accountNameOf user =
     (case user of None \<Rightarrow> None | Some u \<Rightarrow> Some (firstName u @ ascii '' '' @ lastName u))"

definition exportSummary :: "nat \<Rightarrow> TransformedRide rides_summary \<Rightarrow> RideData rides_summary" where
  "exportSummary n s =
     \<lparr> selectedCount = n, summaryTotal = summaryTotal s, summaryCurrency = summaryCurrency s,
       rides = map toRideData (rides s) \<rparr>"

text \<open>The filter \<^verbatim>\<open>pdf.pdfBase64 !== null\<close>, keeping identifier and payload.\<close>

definition validPdfs :: "pdf_result list \<Rightarrow> (jsstring \<times> jsstring) list" where
  "validPdfs pdfs =
     concat (map (\<lambda>pdf. case pdfBase64 pdf of Some b \<Rightarrow> [(pdfRideId pdf, b)] | None \<Rightarrow> []) pdfs)"

definition fileName :: "('d, 'p, 'f) export_env \<Rightarrow> string \<Rightarrow> string \<Rightarrow> jsstring" where
  "fileName env stem ext =
     ascii stem @ formatDate (dateLib env) (today env) (ascii ''yyyy-MM-dd'') @ ascii ext"

definition mergeFailureLine :: "jsstring \<Rightarrow> jsstring" where
  "mergeFailureLine rid = ascii ''Failed to merge PDF for ride '' @ rid @ ascii '':''"

definition tripsOf :: "TransformedRide rides_summary \<Rightarrow> (jsstring \<times> bool) list" where
  "tripsOf s = map (\<lambda>ride. (rideId ride, isAutoRide ride)) (rides s)"

text \<open>\<open>handleDownloadReport\<close>: the cover and all receipts in one document.\<close>

definition handleDownloadReport ::
  "('d, 'p, 'f) export_env \<Rightarrow> 'f option \<Rightarrow> UberAuthCredentials option \<Rightarrow> UberCurrentUser option \<Rightarrow>
   TransformedRide rides_summary \<Rightarrow> 'p handler_outcome \<times> 'f option" where
  "handleDownloadReport env cache auth user s =
     (case auth of
        None \<Rightarrow> (nothingDone, cache)
      | Some a \<Rightarrow>
          if selectedCount s = 0 then (nothingDone, cache)
          else
            (case fetchMultipleReceiptPdfs a (invoiceFiles env) (pdfResponse env) (clock env)
                    (tripsOf s) of
               Inl e \<Rightarrow>
                 (\<lparr> downloads = [], networkRequests = [],
                    consoleErrors = [ascii ''Failed to download receipts: '' @ e] \<rparr>, cache)
             | Inr results \<Rightarrow>
                 (let reqs = concat (map snd results);
                      valid = validPdfs (map fst results)
                  in if valid = [] then
                       (\<lparr> downloads = [], networkRequests = reqs,
                          consoleErrors = [ascii ''No PDFs were successfully fetched''] \<rparr>, cache)
                     else
                       (let (pdf, cache') =
                              generateSummaryPdf env cache (exportSummary (length valid) s)
                                (accountNameOf user) (Some valid)
                        in case pdfPages pdf of
                             Inl e \<Rightarrow>
                               (\<lparr> downloads = [], networkRequests = reqs @ pdfRequests pdf,
                                  consoleErrors = [ascii ''Failed to download receipts: '' @ e] \<rparr>,
                                cache')
                           | Inr pages \<Rightarrow>
                               (\<lparr> downloads = [(fileName env ''uber_expenses_'' ''.pdf'', PdfFile pages)],
                                  networkRequests = reqs @ pdfRequests pdf,
                                  consoleErrors = map mergeFailureLine (pdfMergeFailures pdf) \<rparr>,
                                cache')))))"

text \<open>
  \<open>handleDownloadInvoices\<close>: the receipts alone, merged into an empty document, which
  is then saved.
\<close>

definition handleDownloadInvoices ::
  "('d, 'p, 'f) export_env \<Rightarrow> UberAuthCredentials option \<Rightarrow> TransformedRide rides_summary \<Rightarrow>
   'p handler_outcome" where
  "handleDownloadInvoices env auth s =
     (case auth of
        None \<Rightarrow> nothingDone
      | Some a \<Rightarrow>
          if selectedCount s = 0 then nothingDone
          else
            (case fetchMultipleReceiptPdfs a (invoiceFiles env) (pdfResponse env) (clock env)
                    (tripsOf s) of
               Inl e \<Rightarrow>
                 \<lparr> downloads = [], networkRequests = [],
                   consoleErrors = [ascii ''Failed to download invoices: '' @ e] \<rparr>
             | Inr results \<Rightarrow>
                 (let reqs = concat (map snd results);
                      valid = validPdfs (map fst results)
                  in if valid = [] then
                       \<lparr> downloads = [], networkRequests = reqs,
                         consoleErrors = [ascii ''No PDFs were successfully fetched''] \<rparr>
                     else
                       (let st = mergeReceipts (loadPdf env) valid
                                   \<lparr> mergedPages = [], mergeFailures = [] \<rparr>
                        in \<lparr> downloads =
                               [(fileName env ''uber_invoices_'' ''.pdf'',
                                 PdfFile (savePdf env (mergedPages st)))],
                             networkRequests = reqs,
                             consoleErrors = map mergeFailureLine (mergeFailures st) \<rparr>))))"

text \<open>
  \<open>handleDownloadSummaryPdf\<close>: the cover alone. A font that cannot be loaded rejects the
  handler's promise, which nobody catches: nothing is downloaded and nothing is logged.
\<close>

definition handleDownloadSummaryPdf ::
  "('d, 'p, 'f) export_env \<Rightarrow> 'f option \<Rightarrow> UberCurrentUser option \<Rightarrow>
   TransformedRide rides_summary \<Rightarrow> 'p handler_outcome \<times> 'f option" where
  "handleDownloadSummaryPdf env cache user s =
     (if selectedCount s = 0 then (nothingDone, cache)
      else
        (let (pdf, cache') =
               generateSummaryPdf env cache (exportSummary (selectedCount s) s)
                 (accountNameOf user) None
         in case pdfPages pdf of
              Inl e \<Rightarrow>
                (\<lparr> downloads = [], networkRequests = pdfRequests pdf, consoleErrors = [] \<rparr>, cache')
            | Inr pages \<Rightarrow>
                (\<lparr> downloads = [(fileName env ''uber_summary_'' ''.pdf'', PdfFile pages)],
                   networkRequests = pdfRequests pdf, consoleErrors = [] \<rparr>, cache')))"

text \<open>\<open>handleDownloadCsv\<close>.\<close>

definition handleDownloadCsv ::
  "('d, 'p, 'f) export_env \<Rightarrow> TransformedRide rides_summary \<Rightarrow> 'p handler_outcome" where
  "handleDownloadCsv env s =
     (if selectedCount s = 0 then nothingDone
      else
        \<lparr> downloads =
            [(fileName env ''uber_expenses_'' ''.csv'',
              CsvFile (generateCsv (dateLib env) (runtime env) (exportSummary (selectedCount s) s)))],
          networkRequests = [], consoleErrors = [] \<rparr>)"

section \<open>Reference notions and sample data\<close>

text \<open>
  The partition into contiguous batches as the specification words it: the first \<open>b\<close>
  elements, then the partition of the rest. It is compared below with the slices the loop
  of \<open>handleFetchRides\<close> takes.
\<close>

function contiguousBatches :: "nat \<Rightarrow> 'a list \<Rightarrow> 'a list list" where
  "contiguousBatches b xs =
     (if b = 0 \<or> xs = [] then [] else take b xs # contiguousBatches b (drop b xs))"
  by pat_completeness auto
termination
  by (relation "measure (\<lambda>(b, xs). length xs)") auto

declare contiguousBatches.simps [simp del]

text \<open>What one batch adds to the enriched rides (nothing, were the call rejected).\<close>

definition batchRides ::
  "(16 word \<Rightarrow> jsstring) \<Rightarrow> UberAuthCredentials \<Rightarrow> (jsstring \<Rightarrow> jsstring + trip_response) \<Rightarrow>
   TransformedRide list \<Rightarrow> jsstring list \<Rightarrow> TransformedRide list" where
  "batchRides lc auth detail acts batch =
     (case enrichBatch lc auth detail acts batch of Inr rs \<Rightarrow> rs | Inl _ \<Rightarrow> [])"

text \<open>
  The rides of the identifiers of a batch whose detail request succeeded, in the order of
  the batch, and the error lines of the others.
\<close>

definition detailedRides ::
  "(16 word \<Rightarrow> jsstring) \<Rightarrow> (jsstring \<Rightarrow> jsstring + trip_response) \<Rightarrow> jsstring list \<Rightarrow>
   TransformedRide list" where
  "detailedRides lc detail batch =
     concat (map (\<lambda>u. case detail u of Inr resp \<Rightarrow> [transformTrip lc resp] | Inl _ \<Rightarrow> []) batch)"

definition failureMessages ::
  "(jsstring \<Rightarrow> jsstring + trip_response) \<Rightarrow> jsstring list \<Rightarrow> jsstring list" where
  "failureMessages detail batch =
     concat (map (\<lambda>u. case detail u of
                        Inr _ \<Rightarrow> []
                      | Inl msg \<Rightarrow> [ascii ''Failed to fetch '' @ u @ ascii '': '' @ msg]) batch)"

text \<open>Sample data for the concrete instances below.\<close>

definition exampleAuth :: UberAuthCredentials where
  "exampleAuth = \<lparr> cookie = ascii ''sid=abc'', csrfToken = ascii ''x'' \<rparr>"

definition exampleLower :: "16 word \<Rightarrow> jsstring" where
  "exampleLower c = [c]"

definition exampleRide :: "jsstring \<Rightarrow> jsnum \<Rightarrow> jsstring \<Rightarrow> TransformedRide" where
  "exampleRide rid amount cur =
     \<lparr> rideId = rid, startTime = ascii ''2025-11-16T22:33:00Z'',
       endTime = ascii ''2025-11-16T22:58:00Z'', startLocation = ascii ''Airport'',
       endLocation = ascii ''Home'', totalAmount = amount, currency = cur,
       driverName = ascii ''Ravi'', vehicleType = ascii ''UberXL'',
       status = ascii ''COMPLETED'', mapUrl = [], isAutoRide = False \<rparr>"

definition exampleTrip :: "jsstring \<Rightarrow> trip_response" where
  "exampleTrip rid =
     \<lparr> tripUuid = rid, beginTripTime = ascii ''2025-11-16T22:33:00Z'',
       dropoffTime = ascii ''2025-11-16T22:58:00Z'',
       waypoints = [ascii ''Airport'', ascii ''Home''], driver = ascii ''Ravi'',
       fare = 0x20B9 # ascii ''84.38'', tripStatus = ascii ''COMPLETED'', mapURL = [],
       receiptVehicleType = Some (ascii ''UberXL'') \<rparr>"

definition examplePage :: "jsstring list \<Rightarrow> jsstring option \<Rightarrow> activities_page" where
  "examplePage ids token =
     \<lparr> activities = map (\<lambda>rid. exampleRide rid (Num 10) (ascii ''USD'')) ids,
       nextPageToken = token, pageError = None \<rparr>"

definition exampleIds :: "jsstring list" where
  "exampleIds =
     [ ascii ''a'', ascii ''b'', ascii ''c'', ascii ''d'', ascii ''e'', ascii ''f'',
       ascii ''g'', ascii ''h'', ascii ''i'', ascii ''j'', ascii ''k'' ]"

definition repeatedIds :: "jsstring list" where
  "repeatedIds =
     [ ascii ''a'', ascii ''b'', ascii ''c'', ascii ''d'', ascii ''e'', ascii ''f'',
       ascii ''g'', ascii ''h'', ascii ''i'', ascii ''j'', ascii ''a'' ]"

definition exampleRuntime :: js_runtime where
  "exampleRuntime =
     \<lparr> numberText = (\<lambda>x. ascii ''1e+21''),
       inheritedText =
         (\<lambda>name. if name = ascii ''toString''
                  then Some (ascii ''function toString() { [native code] }'')
                  else None) \<rparr>"

text \<open>
  A date library for the instances: it knows one ISO timestamp and rejects everything
  else, as the real ones reject a string that is no date.
\<close>

definition exampleDateLib :: "nat date_lib" where
  "exampleDateLib =
     \<lparr> parseISO = (\<lambda>s. if s = ascii ''2025-11-16T22:33:00Z'' then Some 0 else None),
       newDate = (\<lambda>s. if s = ascii ''2025-11-16T22:33:00Z'' then Some 0 else None),
       formatDate = (\<lambda>d f. if f = ascii ''yyyy-MM-dd'' then ascii ''2025-11-16''
                         else ascii ''Nov 16, 2025 22:33''),
       toISOString = (\<lambda>d. ascii ''2025-11-16T22:33:00.000Z'') \<rparr>"

text \<open>
  A label contains a keyword whatever the case of its letters when some stretch of it is
  the keyword with some letters capitalised: \<open>caseVariant m kw\<close> says that \<open>m\<close> is
  such a spelling of the lower-case keyword \<open>kw\<close>.
\<close>

definition caseVariant :: "jsstring \<Rightarrow> jsstring \<Rightarrow> bool" where
  "caseVariant m kw = list_all2 (\<lambda>x k. x = k \<or> x + 32 = k) m kw"

definition lowerLetters :: "jsstring \<Rightarrow> bool" where
  "lowerLetters kw = list_all (\<lambda>k. 0x61 \<le> k \<and> k \<le> 0x7A) kw"

text \<open>The vehicle type \<open>fetchActivities\<close> gives a summary-level activity.\<close>

definition activityVehicleType :: "jsstring \<Rightarrow> jsstring" where
  "activityVehicleType imageUrl = (if isAutoRideFromImage imageUrl then ascii ''Auto'' else ascii ''Car'')"

text \<open>An alphabetic ISO 4217 currency code is made of three capital letters.\<close>

definition isoCodeShape :: "jsstring \<Rightarrow> bool" where
  "isoCodeShape s = (length s = 3 \<and> list_all (\<lambda>c. 0x41 \<le> c \<and> c \<le> 0x5A) s)"

text \<open>A ride whose timestamps are no dates.\<close>

definition unparsedRide :: RideData where
  "unparsedRide =
     toRideData ((exampleRide (ascii ''r1'') (Num 10) (ascii ''USD''))
       \<lparr> startTime := ascii ''not a date'', endTime := ascii ''not a date'' \<rparr>)"

text \<open>
  Three rides, of which the first two are selected: 84.38 and 120.00 rupees.
\<close>

definition exampleRides :: "TransformedRide list" where
  "exampleRides =
     [ exampleRide (ascii ''r1'') (parseAmount (0x20B9 # ascii ''84.38'')) (ascii ''INR''),
       exampleRide (ascii ''r2'') (parseAmount (0x20B9 # ascii ''120.00'')) (ascii ''INR''),
       exampleRide (ascii ''r3'') (Num 5) (ascii ''USD'') ]"

definition exampleSelection :: "jsstring \<Rightarrow> bool" where
  "exampleSelection rid = (rid = ascii ''r1'' \<or> rid = ascii ''r2'')"

text \<open>
  Two selections whose totals need rounding: ten and twenty cents, and a half with 0.505.
\<close>

definition dimeRides :: "TransformedRide list" where
  "dimeRides =
     [ exampleRide (ascii ''r1'') (parseAmount (ascii ''$0.10'')) (ascii ''USD''),
       exampleRide (ascii ''r2'') (parseAmount (ascii ''$0.20'')) (ascii ''USD'') ]"

definition halfRides :: "TransformedRide list" where
  "halfRides =
     [ exampleRide (ascii ''r1'') (parseAmount (ascii ''0.500'')) (ascii ''USD''),
       exampleRide (ascii ''r2'') (parseAmount (ascii ''0.505'')) (ascii ''USD'') ]"

text \<open>
  The pages a fetched document adds to the merged one. The document of the ride at
  position \<open>i\<close> of a selection: its identifier and the payload fetched from the URL the
  resolver chooses for it, if that fetch succeeds (\<open>fetchFails\<close> says that it does
  not). The documents of a selection: those of its rides, position after position.
\<close>

definition pagesOf :: "(jsstring \<Rightarrow> 'p list option) \<Rightarrow> jsstring \<times> jsstring \<Rightarrow> 'p list" where
  "pagesOf load pdfData = (case load (snd pdfData) of Some ps \<Rightarrow> ps | None \<Rightarrow> [])"

definition fetchFails :: "('d, 'p, 'f) export_env \<Rightarrow> nat \<Rightarrow> TransformedRide \<Rightarrow> bool" where
  "fetchFails env i ride =
     isl (pdfResponse env
            (fst (resolvePdfUrl (invoiceFiles env) (clock env i) (rideId ride) (isAutoRide ride))))"

definition receiptDocument ::
  "('d, 'p, 'f) export_env \<Rightarrow> nat \<Rightarrow> TransformedRide \<Rightarrow> (jsstring \<times> jsstring) list" where
  "receiptDocument env i ride =
     (case pdfResponse env
             (fst (resolvePdfUrl (invoiceFiles env) (clock env i) (rideId ride) (isAutoRide ride))) of
        Inr payload \<Rightarrow> [(rideId ride, payload)]
      | Inl _ \<Rightarrow> [])"

definition selectionDocs ::
  "('d, 'p, 'f) export_env \<Rightarrow> TransformedRide list \<Rightarrow> (jsstring \<times> jsstring) list" where
  "selectionDocs env rs = concat (map (\<lambda>i. receiptDocument env i (rs ! i)) [0..<length rs])"

text \<open>
  A network for the instances: the receipts of \<open>r1\<close> and \<open>r3\<close> can be fetched, every
  other download fails; \<open>r3\<close> has an invoice file, the other trips have none. The cover
  is one page, numbered 0; the document of \<open>r1\<close> has the pages 11 and 12, that of
  \<open>r3\<close> the page 31.
\<close>

definition examplePdfResponse :: "jsstring \<Rightarrow> jsstring + jsstring" where
  "examplePdfResponse url =
     (if includes_str url (ascii ''/trips/r1/'') then Inr (ascii ''cGRmLXIx'')
      else if includes_str url (ascii ''/invoices/r3'') then Inr (ascii ''cGRmLXIz'')
      else Inl (ascii ''Failed to fetch PDF: 404''))"

definition exampleLoadPdf :: "jsstring \<Rightarrow> nat list option" where
  "exampleLoadPdf payload =
     (if payload = ascii ''cGRmLXIx'' then Some [11, 12]
      else if payload = ascii ''cGRmLXIz'' then Some [31]
      else None)"

definition exampleEnv :: "(nat, nat, nat) export_env" where
  "exampleEnv =
     \<lparr> dateLib = exampleDateLib, today = 0, runtime = exampleRuntime,
       renderCover = (\<lambda>cover. (0, [])), loadPdf = exampleLoadPdf, blankPage = 99,
       fontResponse = Some 0,
       invoiceFiles =
         (\<lambda>u. if u = ascii ''r3''
               then InvoiceFiles (Some [ascii ''https://x.example/invoices/r3'',
                                        ascii ''https://x.example/invoices/r3-old''])
               else InvoiceFiles (Some [])),
       pdfResponse = examplePdfResponse,
       clock = (\<lambda>i. 1700000000000 + i) \<rparr>"

section \<open>Activity Pager: the paging loop\<close>

text \<open>As long as the pages carry a token and no error, the loop goes on to the next answer.\<close>

lemma pagerLoop_prefix:
  "\<forall>p\<in>set pre. \<not> pageFailed p \<and> hasNextPage p \<Longrightarrow>
   pagerLoop (pre @ rest) tok st =
   pagerLoop rest (last (tok # map nextPageToken pre))
     (st \<lparr> allActivities := allActivities st @ concat (map activities pre),
           pageRequests := pageRequests st @ take (length pre) (tok # map nextPageToken pre) \<rparr>)"
proof (induction pre arbitrary: tok st)
  case Nil
  then show ?case by simp
next
  case (Cons p pre)
  then have ok: "reportedError p = None" "hasNextPage p"
    by (simp_all add: pageFailed_def)
  from Cons.prems have rest: "\<forall>q\<in>set pre. \<not> pageFailed q \<and> hasNextPage q" by simp
  show ?case
    using Cons.IH [OF rest] ok by (simp add: Let_def)
qed

lemma pagerLoop_running:
  "\<forall>p\<in>set pre. \<not> pageFailed p \<and> hasNextPage p \<Longrightarrow> pagerLoop pre tok st = None"
  using pagerLoop_prefix [of pre "[]" tok st] by simp

lemma sent_tokens:
  "take (length pre) (tok # map nextPageToken pre) @ [last (tok # map nextPageToken pre)] =
   tok # map nextPageToken pre"
  by (metis append_butlast_last_id butlast_conv_take length_Cons length_map list.distinct(1)
      diff_Suc_1)

lemma successful_page_count:
  assumes "\<forall>p\<in>set pre. \<not> pageFailed p \<and> hasNextPage p"
  shows "length (concat (map activities pre) @ (if pageFailed t then [] else activities t)) =
         sum_list (map (\<lambda>p. length (activities p)) (filter (\<lambda>p. \<not> pageFailed p) (pre @ [t])))"
proof -
  have "filter (\<lambda>p. \<not> pageFailed p) pre = pre"
    using assms by (simp add: filter_id_conv)
  then show ?thesis
    by (simp add: length_concat o_def)
qed

text \<open>
  C5. Let the provider's answers be \<open>pre @ t # post\<close>, where every page of \<open>pre\<close>
  came back without error and with a continuation token, and \<open>t\<close> is the first page that
  either failed or carries no token (a token that is \<open>null\<close> or empty). Then the loop
  ends at \<open>t\<close>: it has sent exactly one request per page up to \<open>t\<close>, the first without
  a token and each later one with the token of the page before it (strictly one after the
  other, no page asked twice, nothing of \<open>post\<close> asked for); it holds the activities of
  \<open>pre\<close> in order, followed by those of \<open>t\<close> unless \<open>t\<close> failed, so their number is
  the sum of the activity counts of the pages that came back without error; and when
  \<open>t\<close> failed, its error message is the one line on the error console. Before such a
  page arrives the loop has not ended: on \<open>pre\<close> alone it is still asking.
\<close>

theorem pager_stops_at_first_terminal_page:
  assumes cont: "\<forall>p\<in>set pre. \<not> pageFailed p \<and> hasNextPage p"
    and stop: "pageFailed t \<or> \<not> hasNextPage t"
  shows "(\<exists>st. pagerLoop (pre @ t # post) None pagerInit = Some st
            \<and> allActivities st = concat (map activities pre) @ (if pageFailed t then [] else activities t)
            \<and> length (allActivities st) =
                sum_list (map (\<lambda>p. length (activities p))
                           (filter (\<lambda>p. \<not> pageFailed p) (pre @ [t])))
            \<and> pageRequests st = None # map nextPageToken pre
            \<and> length (pageRequests st) = Suc (length pre)
            \<and> pagerErrors st = (case reportedError t of Some e \<Rightarrow> [e] | None \<Rightarrow> []))
         \<and> pagerLoop pre None pagerInit = None"
proof -
  let ?st = "\<lparr> allActivities = concat (map activities pre) @ (if pageFailed t then [] else activities t),
               pageRequests = None # map nextPageToken pre,
               pagerErrors = (case reportedError t of Some e \<Rightarrow> [e] | None \<Rightarrow> []) \<rparr>"
  have run: "pagerLoop (pre @ t # post) None pagerInit = Some ?st"
    using stop sent_tokens [of pre None]
    by (auto simp: pagerLoop_prefix [OF cont] pagerInit_def Let_def pageFailed_def
        split: option.splits)
  have cnt: "length (allActivities ?st) =
      sum_list (map (\<lambda>p. length (activities p)) (filter (\<lambda>p. \<not> pageFailed p) (pre @ [t])))"
    using successful_page_count [OF cont, of t] by simp
  have "\<exists>st. pagerLoop (pre @ t # post) None pagerInit = Some st
            \<and> allActivities st = concat (map activities pre) @ (if pageFailed t then [] else activities t)
            \<and> length (allActivities st) =
                sum_list (map (\<lambda>p. length (activities p))
                           (filter (\<lambda>p. \<not> pageFailed p) (pre @ [t])))
            \<and> pageRequests st = None # map nextPageToken pre
            \<and> length (pageRequests st) = Suc (length pre)
            \<and> pagerErrors st = (case reportedError t of Some e \<Rightarrow> [e] | None \<Rightarrow> [])"
    using run cnt by (intro exI [of _ ?st]) simp
  then show ?thesis
    using pagerLoop_running [OF cont] by simp
qed

text \<open>
  An instance: a first page of two activities with the token \<open>p2\<close>, then a page that
  fails with \<open>Uber API error: 500\<close>, then a page that is never asked for.
\<close>

theorem pager_stops_at_first_terminal_page_witness:
  "\<not> pageFailed (examplePage [ascii ''a'', ascii ''b''] (Some (ascii ''p2'')))
   \<and> hasNextPage (examplePage [ascii ''a'', ascii ''b''] (Some (ascii ''p2'')))
   \<and> pageFailed \<lparr> activities = [], nextPageToken = None,
                   pageError = Some (ascii ''Uber API error: 500'') \<rparr>
   \<and> (\<exists>st. pagerLoop
              [ examplePage [ascii ''a'', ascii ''b''] (Some (ascii ''p2'')),
                \<lparr> activities = [], nextPageToken = None,
                  pageError = Some (ascii ''Uber API error: 500'') \<rparr>,
                examplePage [ascii ''c''] None ] None pagerInit = Some st
          \<and> map rideId (allActivities st) = [ascii ''a'', ascii ''b'']
          \<and> pageRequests st = [None, Some (ascii ''p2'')]
          \<and> pagerErrors st = [ascii ''Uber API error: 500''])"
  using pager_stops_at_first_terminal_page
    [of "[examplePage [ascii ''a'', ascii ''b''] (Some (ascii ''p2''))]"
        "\<lparr> activities = [], nextPageToken = None,
           pageError = Some (ascii ''Uber API error: 500'') \<rparr>"
        "[examplePage [ascii ''c''] None]"]
  by (auto simp: examplePage_def exampleRide_def pageFailed_def reportedError_def
      hasNextPage_def ascii_def)

section \<open>Detail Enricher: batches, order and failures\<close>

subsection \<open>The reference partition\<close>

lemma batches_concat: "0 < b \<Longrightarrow> concat (contiguousBatches b xs) = xs"
proof (induction b xs rule: contiguousBatches.induct)
  case (1 b xs)
  then show ?case by (subst contiguousBatches.simps) auto
qed

lemma batches_length: "0 < b \<Longrightarrow> length (contiguousBatches b xs) = (length xs + b - 1) div b"
proof (induction b xs rule: contiguousBatches.induct)
  case (1 b xs)
  show ?case
  proof (cases "xs = []")
    case True
    with 1 show ?thesis by (subst contiguousBatches.simps) simp
  next
    case False
    then have pos: "0 < length xs" by simp
    have ih: "length (contiguousBatches b (drop b xs)) = (length xs - b + b - 1) div b"
      using 1 False by simp
    have "length (contiguousBatches b xs) = Suc ((length xs - b + b - 1) div b)"
      using 1 False ih by (subst contiguousBatches.simps) simp
    also have "\<dots> = (length xs + b - 1) div b"
    proof (cases "b \<le> length xs")
      case True
      then have "length xs + b - 1 = (length xs - b + b - 1) + b" using 1(2) by simp
      then show ?thesis using 1(2) by (metis div_add_self2 less_numeral_extra(3) Suc_eq_plus1)
    next
      case False
      then have a: "length xs - b + b - 1 = b - 1" by simp
      have "length xs + b - 1 = b + (length xs - 1)" using pos by arith
      then have "(length xs + b - 1) div b = (b + (length xs - 1)) div b" by (simp only:)
      also have "\<dots> = 1 + (length xs - 1) div b" using 1(2) by simp
      also have "(length xs - 1) div b = 0" using False by simp
      finally have b: "(length xs + b - 1) div b = 1" by simp
      show ?thesis using a b 1(2) by simp
    qed
    finally show ?thesis .
  qed
qed

lemma batches_sizes: "0 < b \<Longrightarrow> c \<in> set (contiguousBatches b xs) \<Longrightarrow> 0 < length c \<and> length c \<le> b"
proof (induction b xs rule: contiguousBatches.induct)
  case (1 b xs)
  from 1(3) have "xs \<noteq> []" by (subst (asm) contiguousBatches.simps) (auto split: if_splits)
  with 1 show ?case by (subst (asm) (2) contiguousBatches.simps) (auto split: if_splits)
qed

lemma batches_nth:
  "0 < b \<Longrightarrow> k < length (contiguousBatches b xs) \<Longrightarrow>
   contiguousBatches b xs ! k = take b (drop (k * b) xs)"
proof (induction b xs arbitrary: k rule: contiguousBatches.induct)
  case (1 b xs)
  from 1(3) have ne: "xs \<noteq> []" by (subst (asm) contiguousBatches.simps) (auto split: if_splits)
  have unf: "contiguousBatches b xs = take b xs # contiguousBatches b (drop b xs)"
    using ne 1(2) by (subst contiguousBatches.simps) simp
  show ?case
  proof (cases k)
    case 0
    then show ?thesis by (simp add: unf)
  next
    case (Suc j)
    then have "j < length (contiguousBatches b (drop b xs))" using 1(3) unf by simp
    then have "contiguousBatches b (drop b xs) ! j = take b (drop (j * b) (drop b xs))"
      using 1(1) ne 1(2) by simp
    then show ?thesis using Suc by (simp add: unf add.commute)
  qed
qed

lemma enrichBatch_valid:
  "validAuth auth \<Longrightarrow> batch \<noteq> [] \<Longrightarrow>
   enrichBatch lc auth detail acts batch = Inr (batchRides lc auth detail acts batch)"
  by (simp add: batchRides_def enrichBatch_def fetchMultipleTripDetails_def Let_def)

lemma enrichLoop_batches:
  "validAuth auth \<Longrightarrow>
   enrichLoop lc auth detail acts ids i st =
     Inr (st \<lparr> enrichedRides := enrichedRides st @
                 concat (map (batchRides lc auth detail acts) (contiguousBatches batchSize (drop i ids))),
               issuedBatches := issuedBatches st @ contiguousBatches batchSize (drop i ids),
               batchEvents := batchEvents st @
                 concat (map (\<lambda>b. [BatchCalled b, BatchReturned b])
                           (contiguousBatches batchSize (drop i ids))) \<rparr>)"
proof (induction lc auth detail acts ids i st rule: enrichLoop.induct)
  case (1 lc auth detail acts ids i st)
  show ?case
  proof (cases "i < length ids")
    case False
    then show ?thesis
      by (subst enrichLoop.simps) (simp add: contiguousBatches.simps [of _ "[]"])
  next
    case True
    let ?batch = "slice_arr ids i (i + batchSize)"
    have bt: "?batch = take batchSize (drop i ids)" by (simp add: slice_arr_def)
    have ne: "?batch \<noteq> []" using True by (simp add: slice_arr_def batchSize_def)
    have eb: "enrichBatch lc auth detail acts ?batch = Inr (batchRides lc auth detail acts ?batch)"
      using enrichBatch_valid [OF 1(2) ne] .
    have unf: "contiguousBatches batchSize (drop i ids) =
                 ?batch # contiguousBatches batchSize (drop (i + batchSize) ids)"
    proof -
      have "drop i ids \<noteq> []" "0 < batchSize" using True by (simp_all add: batchSize_def)
      then show ?thesis
        by (subst contiguousBatches.simps) (simp add: slice_arr_def add.commute)
    qed
    show ?thesis
      using 1(1) [OF True refl refl eb 1(2)] True
      by (subst enrichLoop.simps) (simp add: eb unf Let_def)
  qed
qed

lemma batches_as_slices:
  "0 < b \<Longrightarrow>
   contiguousBatches b xs = map (\<lambda>k. take b (drop (k * b) xs)) [0..<(length xs + b - 1) div b]"
  by (rule nth_equalityI) (simp_all add: batches_length batches_nth)

subsection \<open>What one batch contributes\<close>

lemma fetchMultipleTripDetails_valid:
  assumes "validAuth auth" "batch \<noteq> []"
  shows "fetchMultipleTripDetails lc auth detail batch =
           Inr (detailedRides lc detail batch, failureMessages detail batch)"
proof -
  have a: "concat (map (\<lambda>r. case r of Inr ride \<Rightarrow> [ride] | Inl _ \<Rightarrow> [])
             (map (\<lambda>u. case detail u of Inr resp \<Rightarrow> Inr (transformTrip lc resp)
                         | Inl msg \<Rightarrow> Inl (ascii ''Failed to fetch '' @ u @ ascii '': '' @ msg)) xs))
           = detailedRides lc detail xs" for xs
    by (induction xs) (auto simp: detailedRides_def split: sum.splits)
  have b: "concat (map (\<lambda>r. case r of Inr _ \<Rightarrow> [] | Inl e \<Rightarrow> [e])
             (map (\<lambda>u. case detail u of Inr resp \<Rightarrow> Inr (transformTrip lc resp)
                         | Inl msg \<Rightarrow> Inl (ascii ''Failed to fetch '' @ u @ ascii '': '' @ msg)) xs))
           = failureMessages detail xs" for xs
    by (induction xs) (auto simp: failureMessages_def split: sum.splits)
  show ?thesis
    unfolding fetchMultipleTripDetails_def Let_def a b using assms by simp
qed

lemma detailedRides_empty_iff:
  "detailedRides lc detail batch = [] \<longleftrightarrow> (\<forall>u\<in>set batch. isl (detail u))"
  by (induction batch) (auto simp: detailedRides_def split: sum.splits)

lemma batchRides_valid:
  assumes "validAuth auth" "batch \<noteq> []"
  shows "batchRides lc auth detail acts batch =
           (if \<forall>u\<in>set batch. isl (detail u) then filter (\<lambda>a. rideId a \<in> set batch) acts
            else detailedRides lc detail batch)"
  using assms detailedRides_empty_iff [of lc detail batch]
  by (simp add: batchRides_def enrichBatch_def fetchMultipleTripDetails_valid)

lemma rideId_transformTrip: "rideId (transformTrip lc resp) = tripUuid resp"
  by (simp add: transformTrip_def Let_def)

lemma detailedRides_ids:
  assumes echo: "\<forall>u resp. detail u = Inr resp \<longrightarrow> tripUuid resp = u"
  shows "map rideId (detailedRides lc detail batch) = filter (\<lambda>u. \<not> isl (detail u)) batch"
  using echo
  by (induction batch) (auto simp: detailedRides_def rideId_transformTrip split: sum.splits)

lemma filter_chunk:
  assumes "distinct (pre @ b @ post)"
  shows "filter (\<lambda>u. u \<in> set b) (pre @ b @ post) = b"
proof -
  have "filter (\<lambda>u. u \<in> set b) pre = []" "filter (\<lambda>u. u \<in> set b) post = []"
    using assms by (auto simp: filter_empty_conv)
  then show ?thesis by simp
qed

lemma chunk_decomp:
  "xs = take n xs @ take b (drop n xs) @ drop (n + b) xs"
  by (metis append_take_drop_id drop_drop add.commute)

lemma subseq_concat_map:
  "(\<forall>b\<in>set bs. subseq (f b) b) \<Longrightarrow> subseq (concat (map f bs)) (concat bs)"
  by (induction bs) (auto intro: list_emb_append_mono)

lemma batches_chunk:
  "0 < n \<Longrightarrow> b \<in> set (contiguousBatches n xs) \<Longrightarrow> \<exists>pre post. xs = pre @ b @ post"
proof (induction n xs rule: contiguousBatches.induct)
  case (1 n xs)
  from 1(3) have ne: "xs \<noteq> []" by (subst (asm) contiguousBatches.simps) (auto split: if_splits)
  from 1(3) ne 1(2) have "b = take n xs \<or> b \<in> set (contiguousBatches n (drop n xs))"
    by (subst (asm) contiguousBatches.simps) auto
  then show ?case
  proof
    assume "b = take n xs"
    then have "xs = [] @ b @ drop n xs" by simp
    then show ?thesis by blast
  next
    assume "b \<in> set (contiguousBatches n (drop n xs))"
    then obtain pre post where "drop n xs = pre @ b @ post"
      using 1(1) ne 1(2) by blast
    then have "xs = (take n xs @ pre) @ b @ post"
      by (metis append_take_drop_id append.assoc)
    then show ?thesis by blast
  qed
qed

lemma detailedRides_all_ok:
  "(\<forall>u\<in>set b. \<exists>resp. detail u = Inr resp \<and> tripUuid resp = u) \<Longrightarrow>
   map rideId (detailedRides lc detail b) = b"
  by (induction b) (auto simp: detailedRides_def rideId_transformTrip)

lemma batchRides_all_ok:
  assumes "validAuth auth" "b \<noteq> []"
    and ok: "\<forall>u\<in>set b. \<exists>resp. detail u = Inr resp \<and> tripUuid resp = u"
  shows "map rideId (batchRides lc auth detail acts b) = b"
proof -
  obtain u where "u \<in> set b" using assms(2) by (cases b) auto
  with ok have "\<not> (\<forall>u\<in>set b. isl (detail u))" by force
  then have "batchRides lc auth detail acts b = detailedRides lc detail b"
    by (auto simp: batchRides_valid [OF assms(1,2)])
  then show ?thesis
    using detailedRides_all_ok [OF ok] by simp
qed

lemma batchRides_subseq:
  assumes "validAuth auth" "b \<noteq> []"
    and echo: "\<forall>u resp. detail u = Inr resp \<longrightarrow> tripUuid resp = u"
    and dist: "distinct ids" and acts: "map rideId acts = ids"
    and chunk: "ids = pre @ b @ post"
  shows "subseq (map rideId (batchRides lc auth detail acts b)) b"
proof (cases "\<forall>u\<in>set b. isl (detail u)")
  case True
  have "map rideId (filter (\<lambda>a. rideId a \<in> set b) acts) = filter (\<lambda>u. u \<in> set b) (map rideId acts)"
    by (simp add: filter_map o_def)
  also have "\<dots> = b"
    using filter_chunk [of pre b post] dist chunk acts by simp
  finally have "map rideId (filter (\<lambda>a. rideId a \<in> set b) acts) = b" .
  moreover have "batchRides lc auth detail acts b = filter (\<lambda>a. rideId a \<in> set b) acts"
    using True by (simp add: batchRides_valid [OF assms(1,2)])
  ultimately show ?thesis by simp
next
  case False
  then have "batchRides lc auth detail acts b = detailedRides lc detail b"
    by (auto simp: batchRides_valid [OF assms(1,2)])
  then show ?thesis
    using detailedRides_ids [OF echo, of lc b] by simp
qed

lemma enrichBatch_cong:
  assumes "\<forall>u\<in>set batch. detail u = detail' u"
  shows "enrichBatch lc auth detail acts batch = enrichBatch lc auth detail' acts batch"
proof -
  have "map (\<lambda>u. case detail u of Inr resp \<Rightarrow> Inr (transformTrip lc resp)
                  | Inl msg \<Rightarrow> Inl (ascii ''Failed to fetch '' @ u @ ascii '': '' @ msg)) batch
      = map (\<lambda>u. case detail' u of Inr resp \<Rightarrow> Inr (transformTrip lc resp)
                  | Inl msg \<Rightarrow> Inl (ascii ''Failed to fetch '' @ u @ ascii '': '' @ msg)) batch"
    using assms by (intro map_cong) simp_all
  then show ?thesis
    unfolding enrichBatch_def fetchMultipleTripDetails_def Let_def by (simp only:)
qed


lemma enrichLoop_run:
  assumes "validAuth auth"
  shows "enrichLoop lc auth detail acts ids 0 enrichInit =
     Inr \<lparr> enrichedRides = concat (map (batchRides lc auth detail acts) (contiguousBatches batchSize ids)),
           issuedBatches = contiguousBatches batchSize ids,
           batchEvents = concat (map (\<lambda>b. [BatchCalled b, BatchReturned b])
                                   (contiguousBatches batchSize ids)) \<rparr>"
  by (simp add: enrichLoop_batches [OF assms] enrichInit_def)

lemma enrichLoop_rides:
  assumes auth: "validAuth auth"
  shows "\<exists>st. enrichLoop lc auth detail acts ids 0 enrichInit = Inr st
     \<and> enrichedRides st =
         concat (map (\<lambda>k. let batch = take 10 (drop (k * 10) ids) in
                        if \<forall>u\<in>set batch. isl (detail u)
                        then filter (\<lambda>a. rideId a \<in> set batch) acts
                        else detailedRides lc detail batch)
                   [0..<(length ids + 9) div 10])"
proof -
  let ?n = "(length ids + 9) div 10"
  let ?slice = "\<lambda>k. take 10 (drop (k * 10) ids)"
  have pos: "0 < batchSize" by (simp add: batchSize_def)
  have bs: "contiguousBatches batchSize ids = map ?slice [0..<?n]"
    using batches_as_slices [OF pos, of ids] by (simp add: batchSize_def add.commute)
  have ne: "?slice k \<noteq> []" if "k \<in> set [0..<?n]" for k
  proof -
    have "?slice k \<in> set (contiguousBatches batchSize ids)"
      using that bs by simp
    then show ?thesis using batches_sizes [OF pos] by fastforce
  qed
  have "map (batchRides lc auth detail acts) (map ?slice [0..<?n])
      = map (\<lambda>k. let batch = ?slice k in
                   if \<forall>u\<in>set batch. isl (detail u)
                   then filter (\<lambda>a. rideId a \<in> set batch) acts
                   else detailedRides lc detail batch) [0..<?n]"
    unfolding map_map o_def Let_def
    by (rule map_cong [OF refl]) (simp only: batchRides_valid [OF auth ne])
  then show ?thesis
    by (simp only: enrichLoop_run [OF auth] bs) simp
qed


text \<open>
  C4. With credentials that pass the validator, the enrichment loop on \<open>n\<close> trip
  identifiers ends and has called \<open>fetchMultipleTripDetails\<close> exactly
  \<open>\<lceil>n / 10\<rceil>\<close> times, which is \<open>(n + 9) div 10\<close>; the \<open>k\<close>-th call (counted from 0)
  carried the ten identifiers from position \<open>10 k\<close> on, or the fewer that are left; the
  batches, one after the other in the order of the calls, are the list of identifiers
  itself, and their sizes add up to \<open>n\<close>. The calls are made one at a time: in the record
  of calls and returns, every call is followed at once by its own return, so that the call
  for a batch comes after the return of the batch before it. When every detail request
  succeeds and answers with the identifier asked for, the enriched rides carry the
  identifiers in the order of the input. When requests fail, this holds for lists whose
  identifiers are pairwise different and are those of the activities, with answers that
  carry the identifier asked for: the identifiers of the enriched rides are then a
  subsequence of the input. It does not hold for every list: see the counterexample below.
\<close>

theorem enricher_batches_and_order:
  assumes auth: "validAuth auth"
  shows "\<exists>st. enrichLoop lc auth detail acts ids 0 enrichInit = Inr st
     \<and> length (issuedBatches st) = (length ids + 9) div 10
     \<and> (\<forall>k < length (issuedBatches st). issuedBatches st ! k = take 10 (drop (k * 10) ids))
     \<and> concat (issuedBatches st) = ids
     \<and> sum_list (map length (issuedBatches st)) = length ids
     \<and> batchEvents st = concat (map (\<lambda>b. [BatchCalled b, BatchReturned b]) (issuedBatches st))
     \<and> ((\<forall>u\<in>set ids. \<exists>resp. detail u = Inr resp \<and> tripUuid resp = u) \<longrightarrow>
          map rideId (enrichedRides st) = ids)
     \<and> ((\<forall>u resp. detail u = Inr resp \<longrightarrow> tripUuid resp = u) \<and> distinct ids \<and> map rideId acts = ids \<longrightarrow>
          subseq (map rideId (enrichedRides st)) ids)"
proof -
  let ?bs = "contiguousBatches batchSize ids"
  let ?f = "batchRides lc auth detail acts"
  let ?st = "\<lparr> enrichedRides = concat (map ?f ?bs), issuedBatches = ?bs,
              batchEvents = concat (map (\<lambda>b. [BatchCalled b, BatchReturned b]) ?bs) \<rparr>"
  have pos: "0 < batchSize" by (simp add: batchSize_def)
  have run: "enrichLoop lc auth detail acts ids 0 enrichInit = Inr ?st"
    by (rule enrichLoop_run [OF auth])
  have cat: "concat ?bs = ids" by (rule batches_concat [OF pos])
  have len: "length ?bs = (length ids + 9) div 10"
    using batches_length [OF pos, of ids] by (simp add: batchSize_def)
  have nth: "\<forall>k < length ?bs. ?bs ! k = take 10 (drop (k * 10) ids)"
    using batches_nth [OF pos, of _ ids] by (simp add: batchSize_def)
  have sum: "sum_list (map length ?bs) = length ids"
    using cat by (metis length_concat)
  have ne: "b \<noteq> []" if "b \<in> set ?bs" for b
    using batches_sizes [OF pos that] by auto
  have ids_eq: "map rideId (concat (map ?f ?bs)) = concat (map (\<lambda>b. map rideId (?f b)) ?bs)"
    by (simp add: map_concat o_def)
  have allok: "map rideId (concat (map ?f ?bs)) = ids"
    if ok: "\<forall>u\<in>set ids. \<exists>resp. detail u = Inr resp \<and> tripUuid resp = u"
  proof -
    have "map rideId (?f b) = b" if mem: "b \<in> set ?bs" for b
    proof -
      have "set b \<subseteq> set ids" using mem cat by (metis set_concat UN_upper)
      then show ?thesis using batchRides_all_ok [OF auth ne [OF mem]] ok by blast
    qed
    then have "concat (map (\<lambda>b. map rideId (?f b)) ?bs) = concat ?bs"
      by (simp cong: map_cong)
    then show ?thesis using ids_eq cat by simp
  qed
  have sub: "subseq (map rideId (concat (map ?f ?bs))) ids"
    if echo: "\<forall>u resp. detail u = Inr resp \<longrightarrow> tripUuid resp = u"
      and dist: "distinct ids" and acts: "map rideId acts = ids"
  proof -
    have "subseq (map rideId (?f b)) b" if mem: "b \<in> set ?bs" for b
    proof -
      obtain pre post where "ids = pre @ b @ post"
        using batches_chunk [OF pos mem] by blast
      then show ?thesis
        using batchRides_subseq [OF auth ne [OF mem] echo dist acts] by blast
    qed
    then have "subseq (concat (map (\<lambda>b. map rideId (?f b)) ?bs)) (concat ?bs)"
      by (intro subseq_concat_map) blast
    then show ?thesis using ids_eq cat by simp
  qed
  show ?thesis
    using run cat len nth sum allok sub by (intro exI [of _ ?st]) simp
qed


text \<open>An instance: eleven identifiers, every request answered, two batches.\<close>

theorem enricher_batches_and_order_witness:
  "validAuth exampleAuth \<and> distinct exampleIds
   \<and> (\<exists>st. enrichLoop exampleLower exampleAuth (\<lambda>u. Inr (exampleTrip u))
              (map (\<lambda>u. exampleRide u (Num 10) (ascii ''USD'')) exampleIds) exampleIds 0
              enrichInit = Inr st
          \<and> length (issuedBatches st) = 2
          \<and> issuedBatches st ! 1 = [ascii ''k'']
          \<and> concat (issuedBatches st) = exampleIds
          \<and> sum_list (map length (issuedBatches st)) = 11
          \<and> batchEvents st = [BatchCalled (take 10 exampleIds), BatchReturned (take 10 exampleIds),
                               BatchCalled [ascii ''k''], BatchReturned [ascii ''k'']]
          \<and> map rideId (enrichedRides st) = exampleIds
          \<and> subseq (map rideId (enrichedRides st)) exampleIds)"
proof -
  let ?detail = "\<lambda>u. Inr (exampleTrip u) :: jsstring + trip_response"
  let ?acts = "map (\<lambda>u. exampleRide u (Num 10) (ascii ''USD'')) exampleIds"
  have v: "validAuth exampleAuth"
    by (simp add: validAuth_def exampleAuth_def ascii_def)
  have d: "distinct exampleIds"
    by (simp add: exampleIds_def ascii_def)
  have n: "length exampleIds = 11"
    by (simp add: exampleIds_def)
  have ok: "\<forall>u\<in>set exampleIds. \<exists>resp. ?detail u = Inr resp \<and> tripUuid resp = u"
    by (simp add: exampleTrip_def)
  have echo: "\<forall>u resp. ?detail u = Inr resp \<longrightarrow> tripUuid resp = u"
    by (auto simp: exampleTrip_def)
  have acts: "map rideId ?acts = exampleIds"
    by (simp add: exampleRide_def o_def)
  obtain st where st:
    "enrichLoop exampleLower exampleAuth ?detail ?acts exampleIds 0 enrichInit = Inr st"
    "length (issuedBatches st) = (length exampleIds + 9) div 10"
    "\<forall>k < length (issuedBatches st). issuedBatches st ! k = take 10 (drop (k * 10) exampleIds)"
    "concat (issuedBatches st) = exampleIds"
    "sum_list (map length (issuedBatches st)) = length exampleIds"
    "batchEvents st = concat (map (\<lambda>b. [BatchCalled b, BatchReturned b]) (issuedBatches st))"
    "map rideId (enrichedRides st) = exampleIds"
    "subseq (map rideId (enrichedRides st)) exampleIds"
    using enricher_batches_and_order [OF v, of exampleLower ?detail ?acts exampleIds]
      ok echo d acts by blast
  have two: "length (issuedBatches st) = 2"
    using st(2) n by simp
  then have nth1: "issuedBatches st ! 1 = take 10 (drop 10 exampleIds)"
    using st(3) by simp
  then have last: "issuedBatches st ! 1 = [ascii ''k'']"
    by (simp add: exampleIds_def)
  have nth0: "issuedBatches st ! 0 = take 10 exampleIds"
    using st(3) two by simp
  obtain x y where xy: "issuedBatches st = [x, y]"
    using two by (auto simp: length_Suc_conv numeral_2_eq_2)
  have bs: "issuedBatches st = [take 10 exampleIds, [ascii ''k'']]"
    using nth0 last by (simp add: xy)
  have ev: "batchEvents st = [BatchCalled (take 10 exampleIds), BatchReturned (take 10 exampleIds),
                               BatchCalled [ascii ''k''], BatchReturned [ascii ''k'']]"
    using st(6) by (simp only: bs) simp
  show ?thesis
    using v d st(1,4,5,7,8) two last n ev by auto
qed

text \<open>
  The order clause of C4 fails on a list that repeats an identifier. Eleven identifiers,
  \<open>a\<close> to \<open>j\<close> and \<open>a\<close> again, the activities being one per identifier, and every detail
  request failing: the first batch falls back to the activities whose identifier is among
  \<open>a\<close> to \<open>j\<close>, which are all eleven, and the second batch, \<open>a\<close> alone, to the two
  activities of \<open>a\<close>. The enriched list has thirteen rides for eleven identifiers.
\<close>

theorem repeated_identifier_counterexample:
  "validAuth exampleAuth \<and> length repeatedIds = 11
   \<and> (\<exists>st. enrichLoop exampleLower exampleAuth (\<lambda>u. Inl (ascii ''Uber API error: 500''))
              (map (\<lambda>u. exampleRide u (Num 10) (ascii ''USD'')) repeatedIds) repeatedIds 0
              enrichInit = Inr st
          \<and> length (enrichedRides st) = 13
          \<and> map rideId (enrichedRides st) = repeatedIds @ [ascii ''a'', ascii ''a'']
          \<and> map rideId (enrichedRides st) \<noteq> repeatedIds
          \<and> \<not> subseq (map rideId (enrichedRides st)) repeatedIds)"
proof -
  let ?down = "\<lambda>u. Inl (ascii ''Uber API error: 500'') :: jsstring + trip_response"
  let ?acts = "map (\<lambda>u. exampleRide u (Num 10) (ascii ''USD'')) repeatedIds"
  let ?rides = "concat (map (batchRides exampleLower exampleAuth ?down ?acts)
                          (contiguousBatches batchSize repeatedIds))"
  have v: "validAuth exampleAuth"
    by (simp add: validAuth_def exampleAuth_def ascii_def)
  have n: "length repeatedIds = 11"
    by (simp add: repeatedIds_def)
  have bs: "contiguousBatches batchSize repeatedIds = [take 10 repeatedIds, [ascii ''a'']]"
    using batches_as_slices [of batchSize repeatedIds]
    by (simp add: batchSize_def repeatedIds_def upt_rec)
  have b0: "batchRides exampleLower exampleAuth ?down ?acts (take 10 repeatedIds)
              = filter (\<lambda>a. rideId a \<in> set (take 10 repeatedIds)) ?acts"
    by (subst batchRides_valid [OF v]) (simp_all add: repeatedIds_def)
  have b1: "batchRides exampleLower exampleAuth ?down ?acts [ascii ''a'']
              = filter (\<lambda>a. rideId a \<in> set [ascii ''a'']) ?acts"
    by (subst batchRides_valid [OF v]) simp_all
  have ids: "map rideId ?rides = repeatedIds @ [ascii ''a'', ascii ''a'']"
    by (simp only: bs list.map concat.simps b0 b1)
       (simp add: repeatedIds_def exampleRide_def ascii_def)
  have len: "length ?rides = 13"
    using arg_cong [OF ids, of length] n by simp
  have neq: "map rideId ?rides \<noteq> repeatedIds"
    using ids by simp
  have nsub: "\<not> subseq (map rideId ?rides) repeatedIds"
  proof
    assume "subseq (map rideId ?rides) repeatedIds"
    then have "length (map rideId ?rides) \<le> length repeatedIds"
      by (rule list_emb_length)
    then show False using len n by simp
  qed
  show ?thesis
    using v n len ids neq nsub
    by (simp only: enrichLoop_run [OF v]) simp
qed

text \<open>
  C2. With credentials that pass the validator, the enrichment loop ends normally whatever
  the provider answers, and its enriched rides are, batch after batch, what each batch of
  ten identifiers yields: when every detail request of the batch fails, the summary-level
  activities whose identifier is in the batch stand in for it; when at least one succeeds,
  the rides of the identifiers that succeeded, in the order of the batch, and nothing for
  those that failed: no summary record stands in for them. The round of the loop for one
  non-empty batch never fails and yields just that, and what a batch yields depends on the
  answers to its own identifiers only, so a failed identifier changes nothing in another
  batch.
\<close>

theorem enricher_failure_policy:
  assumes auth: "validAuth auth"
  shows "(\<exists>st. enrichLoop lc auth detail acts ids 0 enrichInit = Inr st
              \<and> enrichedRides st =
                  concat (map (\<lambda>k. let batch = take 10 (drop (k * 10) ids) in
                                 if \<forall>u\<in>set batch. isl (detail u)
                                 then filter (\<lambda>a. rideId a \<in> set batch) acts
                                 else concat (map (\<lambda>u. case detail u of
                                                          Inr resp \<Rightarrow> [transformTrip lc resp]
                                                        | Inl _ \<Rightarrow> []) batch))
                            [0..<(length ids + 9) div 10]))
       \<and> (batch \<noteq> [] \<and> (\<forall>u\<in>set batch. isl (detail u)) \<longrightarrow>
            enrichBatch lc auth detail acts batch = Inr (filter (\<lambda>a. rideId a \<in> set batch) acts))
       \<and> (batch \<noteq> [] \<and> (\<exists>u\<in>set batch. \<not> isl (detail u)) \<longrightarrow>
            enrichBatch lc auth detail acts batch =
              Inr (concat (map (\<lambda>u. case detail u of
                                       Inr resp \<Rightarrow> [transformTrip lc resp]
                                     | Inl _ \<Rightarrow> []) batch)))
       \<and> ((\<forall>u\<in>set batch. detail u = detail' u) \<longrightarrow>
            enrichBatch lc auth detail acts batch = enrichBatch lc auth detail' acts batch)"
proof -
  have a: "enrichBatch lc auth detail acts batch =
        Inr (if \<forall>u\<in>set batch. isl (detail u) then filter (\<lambda>a. rideId a \<in> set batch) acts
             else detailedRides lc detail batch)" if "batch \<noteq> []"
    using enrichBatch_valid [OF auth that] batchRides_valid [OF auth that] by simp
  have b: "\<exists>st. enrichLoop lc auth detail acts ids 0 enrichInit = Inr st
              \<and> enrichedRides st =
                  concat (map (\<lambda>k. let batch = take 10 (drop (k * 10) ids) in
                                 if \<forall>u\<in>set batch. isl (detail u)
                                 then filter (\<lambda>a. rideId a \<in> set batch) acts
                                 else concat (map (\<lambda>u. case detail u of
                                                          Inr resp \<Rightarrow> [transformTrip lc resp]
                                                        | Inl _ \<Rightarrow> []) batch))
                            [0..<(length ids + 9) div 10])"
    using enrichLoop_rides [OF auth, of lc detail acts ids]
    by (simp only: detailedRides_def)
  show ?thesis
    using a b enrichBatch_cong [of batch detail detail' lc auth acts]
    by (auto simp: detailedRides_def)
qed

text \<open>
  Three instances. The loop on the eleven identifiers \<open>a\<close> to \<open>k\<close> where only the
  request for \<open>k\<close> succeeds: the ten activities stand in for the first batch, the second
  gives the detailed ride of \<open>k\<close>. The loop on \<open>a\<close> and \<open>b\<close> where the request for \<open>a\<close>
  fails and the one for \<open>b\<close> succeeds: only the ride of \<open>b\<close>. One round on the batch of
  \<open>a\<close> and \<open>b\<close> where every request fails.
\<close>

theorem enricher_failure_policy_witness:
  "validAuth exampleAuth
   \<and> (\<exists>st. enrichLoop exampleLower exampleAuth
              (\<lambda>u. if u = ascii ''k'' then Inr (exampleTrip u) else Inl (ascii ''Uber API error: 500''))
              (map (\<lambda>u. exampleRide u (Num 10) (ascii ''USD'')) exampleIds) exampleIds 0
              enrichInit = Inr st
          \<and> enrichedRides st =
              map (\<lambda>u. exampleRide u (Num 10) (ascii ''USD'')) (take 10 exampleIds)
              @ [transformTrip exampleLower (exampleTrip (ascii ''k''))])
   \<and> (\<exists>st. enrichLoop exampleLower exampleAuth
              (\<lambda>u. if u = ascii ''a'' then Inl (ascii ''Uber API error: 500'') else Inr (exampleTrip u))
              (map (\<lambda>u. exampleRide u (Num 10) (ascii ''USD'')) exampleIds)
              [ascii ''a'', ascii ''b''] 0 enrichInit = Inr st
          \<and> enrichedRides st = [transformTrip exampleLower (exampleTrip (ascii ''b''))])
   \<and> enrichBatch exampleLower exampleAuth (\<lambda>u. Inl (ascii ''Uber API error: 500''))
        (map (\<lambda>u. exampleRide u (Num 10) (ascii ''USD'')) exampleIds)
        [ascii ''a'', ascii ''b'']
      = Inr [exampleRide (ascii ''a'') (Num 10) (ascii ''USD''),
             exampleRide (ascii ''b'') (Num 10) (ascii ''USD'')]
   \<and> enrichBatch exampleLower exampleAuth
        (\<lambda>u. if u = ascii ''a'' then Inl (ascii ''Uber API error: 500'') else Inr (exampleTrip u))
        (map (\<lambda>u. exampleRide u (Num 10) (ascii ''USD'')) exampleIds)
        [ascii ''a'', ascii ''b'']
      = Inr [transformTrip exampleLower (exampleTrip (ascii ''b''))]"
proof -
  let ?acts = "map (\<lambda>u. exampleRide u (Num 10) (ascii ''USD'')) exampleIds"
  let ?down = "\<lambda>u. Inl (ascii ''Uber API error: 500'') :: jsstring + trip_response"
  let ?part = "\<lambda>u. if u = ascii ''a'' then Inl (ascii ''Uber API error: 500'')
                    else Inr (exampleTrip u) :: jsstring + trip_response"
  let ?last = "\<lambda>u. if u = ascii ''k'' then Inr (exampleTrip u)
                    else Inl (ascii ''Uber API error: 500'') :: jsstring + trip_response"
  have v: "validAuth exampleAuth"
    by (simp add: validAuth_def exampleAuth_def ascii_def)
  have ne: "[ascii ''a'', ascii ''b''] \<noteq> []" by simp
  note loop1 = enricher_failure_policy [OF v, of exampleLower ?last ?acts exampleIds "[]" ?last,
    THEN conjunct1]
  note loop2 = enricher_failure_policy [OF v, of exampleLower ?part ?acts
    "[ascii ''a'', ascii ''b'']" "[]" ?part, THEN conjunct1]
  have l1: "\<exists>st. enrichLoop exampleLower exampleAuth ?last ?acts exampleIds 0 enrichInit = Inr st
          \<and> enrichedRides st =
              map (\<lambda>u. exampleRide u (Num 10) (ascii ''USD'')) (take 10 exampleIds)
              @ [transformTrip exampleLower (exampleTrip (ascii ''k''))]"
  proof -
    obtain st where st:
      "enrichLoop exampleLower exampleAuth ?last ?acts exampleIds 0 enrichInit = Inr st"
      "enrichedRides st =
         concat (map (\<lambda>k. let batch = take 10 (drop (k * 10) exampleIds) in
                        if \<forall>u\<in>set batch. isl (?last u)
                        then filter (\<lambda>a. rideId a \<in> set batch) ?acts
                        else concat (map (\<lambda>u. case ?last u of
                                                 Inr resp \<Rightarrow> [transformTrip exampleLower resp]
                                               | Inl _ \<Rightarrow> []) batch))
                   [0..<(length exampleIds + 9) div 10])"
      using loop1 by blast
    have "enrichedRides st =
            map (\<lambda>u. exampleRide u (Num 10) (ascii ''USD'')) (take 10 exampleIds)
            @ [transformTrip exampleLower (exampleTrip (ascii ''k''))]"
      unfolding st(2)
      by (simp add: exampleIds_def exampleRide_def ascii_def upt_rec Let_def)
    then show ?thesis using st(1) by blast
  qed
  have l2: "\<exists>st. enrichLoop exampleLower exampleAuth ?part ?acts [ascii ''a'', ascii ''b''] 0
                   enrichInit = Inr st
          \<and> enrichedRides st = [transformTrip exampleLower (exampleTrip (ascii ''b''))]"
  proof -
    obtain st where st:
      "enrichLoop exampleLower exampleAuth ?part ?acts [ascii ''a'', ascii ''b''] 0 enrichInit = Inr st"
      "enrichedRides st =
         concat (map (\<lambda>k. let batch = take 10 (drop (k * 10) [ascii ''a'', ascii ''b'']) in
                        if \<forall>u\<in>set batch. isl (?part u)
                        then filter (\<lambda>a. rideId a \<in> set batch) ?acts
                        else concat (map (\<lambda>u. case ?part u of
                                                 Inr resp \<Rightarrow> [transformTrip exampleLower resp]
                                               | Inl _ \<Rightarrow> []) batch))
                   [0..<(length [ascii ''a'', ascii ''b''] + 9) div 10])"
      using loop2 by blast
    have "enrichedRides st = [transformTrip exampleLower (exampleTrip (ascii ''b''))]"
      unfolding st(2)
      by (simp add: ascii_def upt_rec Let_def)
    then show ?thesis using st(1) by blast
  qed
  have a: "enrichBatch exampleLower exampleAuth ?down ?acts [ascii ''a'', ascii ''b'']
        = Inr (filter (\<lambda>r. rideId r \<in> set [ascii ''a'', ascii ''b'']) ?acts)"
    using enricher_failure_policy [OF v, of exampleLower ?down ?acts "[]"
      "[ascii ''a'', ascii ''b'']" ?down] by simp
  have b: "enrichBatch exampleLower exampleAuth ?part ?acts [ascii ''a'', ascii ''b'']
        = Inr (concat (map (\<lambda>u. case ?part u of
                                   Inr resp \<Rightarrow> [transformTrip exampleLower resp]
                                 | Inl _ \<Rightarrow> []) [ascii ''a'', ascii ''b'']))"
    using enricher_failure_policy [OF v, of exampleLower ?part ?acts "[]"
      "[ascii ''a'', ascii ''b'']" ?part]
    by (simp add: ascii_def)
  have c: "filter (\<lambda>r. rideId r \<in> set [ascii ''a'', ascii ''b'']) ?acts
        = [exampleRide (ascii ''a'') (Num 10) (ascii ''USD''),
           exampleRide (ascii ''b'') (Num 10) (ascii ''USD'')]"
    by (simp add: exampleIds_def exampleRide_def ascii_def)
  have e: "concat (map (\<lambda>u. case ?part u of
                                   Inr resp \<Rightarrow> [transformTrip exampleLower resp]
                                 | Inl _ \<Rightarrow> []) [ascii ''a'', ascii ''b''])
        = [transformTrip exampleLower (exampleTrip (ascii ''b''))]"
    by (simp add: ascii_def)
  have a': "enrichBatch exampleLower exampleAuth ?down ?acts [ascii ''a'', ascii ''b'']
        = Inr [exampleRide (ascii ''a'') (Num 10) (ascii ''USD''),
               exampleRide (ascii ''b'') (Num 10) (ascii ''USD'')]"
    using a c by simp
  have b': "enrichBatch exampleLower exampleAuth ?part ?acts [ascii ''a'', ascii ''b'']
        = Inr [transformTrip exampleLower (exampleTrip (ascii ''b''))]"
    using b e by simp
  show ?thesis
    using v l1 l2 a' b' by (intro conjI)
qed

section \<open>Strings: substrings and lower case\<close>

lemma includes_str_iff: "includes_str s sub \<longleftrightarrow> (\<exists>a b. s = a @ sub @ b)"
proof (induction s)
  case Nil
  then show ?case by auto
next
  case (Cons c cs)
  show ?case
  proof
    assume "includes_str (c # cs) sub"
    then consider "take (length sub) (c # cs) = sub" | "includes_str cs sub" by auto
    then show "\<exists>a b. c # cs = a @ sub @ b"
    proof cases
      case 1
      then have "c # cs = [] @ sub @ drop (length sub) (c # cs)"
        by (metis append_Nil append_take_drop_id)
      then show ?thesis by blast
    next
      case 2
      then obtain a b where "cs = a @ sub @ b" using Cons.IH by blast
      then have "c # cs = (c # a) @ sub @ b" by simp
      then show ?thesis by blast
    qed
  next
    assume "\<exists>a b. c # cs = a @ sub @ b"
    then obtain a b where ab: "c # cs = a @ sub @ b" by blast
    show "includes_str (c # cs) sub"
    proof (cases a)
      case Nil
      then have "take (length sub) (c # cs) = sub" using ab by (metis append_Nil append_eq_conv_conj)
      then show ?thesis by simp
    next
      case (Cons x a')
      then have "cs = a' @ sub @ b" using ab by simp
      then show ?thesis using Cons.IH by auto
    qed
  qed
qed

lemma toLowerCase_append: "toLowerCase lc (a @ b) = toLowerCase lc a @ toLowerCase lc b"
  by (simp add: toLowerCase_def)

lemma lowerChar_variant:
  assumes "0x61 \<le> k" "k \<le> 0x7A" "x = k \<or> x + 32 = k"
  shows "lowerChar lc x = [k]"
proof -
  from assms(3) show ?thesis
  proof
    assume "x = k"
    then show ?thesis using assms(1,2) unfolding lowerChar_def
      by (auto simp: word_le_nat_alt word_less_nat_alt)
  next
    assume e: "x + 32 = k"
    then have x: "x = k - 32" by (metis add_diff_cancel_right')
    have "unat (k - 32) = unat k - 32" using assms(1)
      by (simp add: unat_sub word_le_nat_alt)
    then have "0x41 \<le> x \<and> x \<le> 0x5A \<and> x < 0x80"
      using assms(1,2) x by (auto simp: word_le_nat_alt word_less_nat_alt)
    then show ?thesis using e by (simp add: lowerChar_def)
  qed
qed

lemma toLowerCase_variant:
  "caseVariant m kw \<Longrightarrow> lowerLetters kw \<Longrightarrow> toLowerCase lc m = kw"
  unfolding caseVariant_def lowerLetters_def toLowerCase_def
  by (induction m kw rule: list_all2_induct) (auto simp: lowerChar_variant)

lemma ci_includes:
  assumes "label = pre @ m @ post" "caseVariant m kw" "lowerLetters kw"
  shows "includes_str (toLowerCase lc label) kw"
  using assms toLowerCase_variant [OF assms(2,3), of lc]
  by (auto simp: includes_str_iff toLowerCase_append)

lemma floor_rat_numeral_div: "\<lfloor>(numeral a :: rat) / numeral b\<rfloor> = numeral a div numeral b"
  by (metis floor_divide_of_int_eq of_int_numeral)


lemma floor_rat_neg_numeral_div:
  "\<lfloor>- (numeral a / numeral b :: rat)\<rfloor> = (- numeral a) div numeral b"
proof -
  have "- (numeral a / numeral b :: rat) = of_int (- numeral a) / of_int (numeral b)" by simp
  then show ?thesis by (simp only: floor_divide_of_int_eq)
qed

lemmas dbl =
  roundDouble_def binExponent_def roundHalfEven_def pow2_def bitLength.simps Let_def
  floor_rat_numeral_div floor_rat_neg_numeral_div

text \<open>
  On a label of ASCII characters \<open>toLowerCase\<close> works character by character, and a
  keyword of small letters occurs in the lower-cased label exactly when some stretch of the
  label spells it in some mix of capital and small letters.
\<close>

lemma toLowerCase_ascii:
  "\<forall>c\<in>set s. c < 0x80 \<Longrightarrow>
   toLowerCase lc s = map (\<lambda>c. if 0x41 \<le> c \<and> c \<le> 0x5A then c + 32 else c) s"
  by (induction s) (simp_all add: toLowerCase_def lowerChar_def)

lemma caseVariant_lowered:
  "caseVariant m (map (\<lambda>c. if 0x41 \<le> c \<and> c \<le> 0x5A then c + 32 else c) m)"
  by (simp add: caseVariant_def list_all2_map2 list_all2_same)

lemma ascii_lower_includes:
  assumes ascii: "\<forall>c\<in>set label. c < 0x80" and kw: "lowerLetters kw"
  shows "includes_str (toLowerCase lc label) kw \<longleftrightarrow>
           (\<exists>pre m post. label = pre @ m @ post \<and> caseVariant m kw)"
proof
  define low :: "16 word \<Rightarrow> 16 word"
    where "low = (\<lambda>c. if 0x41 \<le> c \<and> c \<le> 0x5A then c + 32 else c)"
  have lowered: "toLowerCase lc label = map low label"
    unfolding low_def by (rule toLowerCase_ascii [OF ascii])
  assume "includes_str (toLowerCase lc label) kw"
  then have "\<exists>a b. map low label = a @ kw @ b"
    by (simp only: lowered includes_str_iff)
  then obtain a b where ab: "map low label = a @ kw @ b" by blast
  let ?m = "take (length kw) (drop (length a) label)"
  have "map low ?m = take (length kw) (drop (length a) (map low label))"
    by (simp only: take_map drop_map)
  also have "\<dots> = kw" by (simp only: ab) simp
  finally have "map low ?m = kw" .
  then have cv: "caseVariant ?m kw"
    using caseVariant_lowered [of ?m] unfolding low_def by simp
  have "label = take (length a) label @ ?m @ drop (length kw) (drop (length a) label)"
    by (simp only: append_take_drop_id)
  then show "\<exists>pre m post. label = pre @ m @ post \<and> caseVariant m kw"
    using cv by blast
next
  assume "\<exists>pre m post. label = pre @ m @ post \<and> caseVariant m kw"
  then obtain pre m post where "label = pre @ m @ post" "caseVariant m kw" by blast
  then show "includes_str (toLowerCase lc label) kw"
    by (rule ci_includes [OF _ _ kw])
qed
section \<open>Currency/Amount Parser: what it computes\<close>

lemmas parser_eval =
  ascii_def parseAmount_def matchHere_def matchGroup_def isCurrencySymbol_def
  isDigitOrComma_def isDigit_def parseFloat_def digitsToNat_def detectCurrency_def

lemma parser_examples:
  "parseAmount (0x20B9 # ascii ''84.38'') = roundDouble (8438 / 100)"
  "detectCurrency (0x20B9 # ascii ''84.38'') = ascii ''INR''"
  "parseAmount (ascii ''$12.50'') = Num (1250 / 100)"
  "detectCurrency (ascii ''$12.50'') = ascii ''USD''"
  "parseAmount (ascii ''no symbol 10'') = Num 10"
  "detectCurrency (ascii ''no symbol 10'') = ascii ''USD''"
  "parseAmount (ascii ''free ride'') = Num 0"
  "parseAmount (0x20B9 # ascii ''1,234.50'') = Num (123450 / 100)"
  "parseAmount (ascii ''Paid, 10'') = NaN"
  by (simp_all add: parser_eval dbl split del: if_split)

text \<open>
  The amounts are doubles: \<open>84.38\<close> is read as the double nearest to it, which is
  \<open>742214329213911 / 2\<^sup>4\<^sup>3\<close>, while \<open>12.5\<close> and \<open>1234.5\<close> are doubles themselves.
\<close>

lemma nearest_double_examples:
  "roundDouble (8438 / 100) = Num (742214329213911 / 2 ^ 43)"
  "roundDouble 120 = Num 120"
  "roundDouble (1 / 10) = Num (3602879701896397 / 2 ^ 55)"
  "roundDouble (2 / 10) = Num (3602879701896397 / 2 ^ 54)"
  by (simp_all add: dbl split del: if_split)

text \<open>
  What reaches \<open>parseFloat\<close> holds digits, commas and full stops only.
\<close>

lemma matchGroup_alphabet:
  "matchGroup s = Some g \<Longrightarrow> \<forall>c\<in>set g. isDigit c \<or> c = 0x2C \<or> c = 0x2E"
  by (auto simp: matchGroup_def Let_def isDigitOrComma_def split: if_splits list.splits
      dest!: set_takeWhileD)

lemma matchFirst_alphabet:
  "matchFirst s = Some g \<Longrightarrow> \<forall>c\<in>set g. isDigit c \<or> c = 0x2C \<or> c = 0x2E"
proof (induction s)
  case Nil
  then show ?case by simp
next
  case (Cons c cs)
  then show ?case
    using matchGroup_alphabet
    by (auto simp: matchHere_def split: option.splits if_splits)
qed

lemma set_replaceFirstComma: "set (replaceFirstComma g) \<subseteq> set g"
  by (induction g) auto

lemma amount_argument_alphabet:
  "matchFirst text = Some g \<Longrightarrow>
   \<forall>c\<in>set (replaceFirstComma g). isDigit c \<or> c = 0x2C \<or> c = 0x2E"
  using matchFirst_alphabet set_replaceFirstComma by blast

text \<open>
  C6. The claim has the thousands separators stripped from the matched run before it is
  read as a number. The pattern admits any number of commas, but the program removes the
  first one only: on a fare of one million two hundred thirty-four thousand five hundred
  sixty-seven rupees and 89 paise, written with two separators, the run
  \<^verbatim>\<open>1,234,567.89\<close> is matched whole, becomes \<^verbatim>\<open>1234,567.89\<close>, and is read up to
  the comma that is left: the amount is 1234. The currency is found as claimed, and so
  are the three amounts the claim names (\<open>parser_examples\<close>).
\<close>

theorem parser_keeps_second_separator:
  "parseAmount (0x20B9 # ascii ''1,234,567.89'') = Num 1234
   \<and> matchFirst (0x20B9 # ascii ''1,234,567.89'') = Some (ascii ''1,234,567.89'')
   \<and> replaceFirstComma (ascii ''1,234,567.89'') = ascii ''1234,567.89''
   \<and> detectCurrency (0x20B9 # ascii ''1,234,567.89'') = ascii ''INR''"
  by (simp add: parser_eval dbl split del: if_split)

section \<open>Vehicle Classifier: labels and image URLs\<close>

lemma lowered_keywords:
  "toLowerCase lc (ascii ''TukTuk'') = ascii ''tuktuk''"
  "toLowerCase lc (ascii ''Auto'') = ascii ''auto''"
  "toLowerCase lc (ascii ''Moto'') = ascii ''moto''"
  "toLowerCase lc (ascii ''Car'') = ascii ''car''"
  by (simp_all add: toLowerCase_def lowerChar_def ascii_def)

lemma includes_lowered:
  assumes "includes_str url kw" "includes_str (toLowerCase lc kw) kw'"
  shows "includes_str (toLowerCase lc url) kw'"
proof -
  obtain a b where "url = a @ kw @ b" using assms(1) includes_str_iff by blast
  moreover obtain c d where "toLowerCase lc kw = c @ kw' @ d" using assms(2) includes_str_iff by blast
  ultimately have "toLowerCase lc url = (toLowerCase lc a @ c) @ kw' @ (d @ toLowerCase lc b)"
    by (simp add: toLowerCase_append)
  then show ?thesis using includes_str_iff by blast
qed

lemma image_flag_implies_label_flag:
  assumes "isAutoRideFromImage url"
  shows "isAuto (getVehicleInfo lc (Some url))"
proof -
  have t: "includes_str (toLowerCase lc (ascii ''TukTuk'')) (ascii ''tuk'')"
    and a: "includes_str (toLowerCase lc (ascii ''Auto'')) (ascii ''auto'')"
    and m: "includes_str (toLowerCase lc (ascii ''Moto'')) (ascii ''moto'')"
    by (simp_all add: lowered_keywords) (simp_all add: ascii_def)
  from assms consider "includes_str url (ascii ''TukTuk'')" | "includes_str url (ascii ''Auto'')"
    | "includes_str url (ascii ''Moto'')"
    by (auto simp: isAutoRideFromImage_def)
  then show ?thesis
  proof cases
    case 1
    then show ?thesis using includes_lowered [OF 1 t] by (simp add: getVehicleInfo_def Let_def)
  next
    case 2
    then show ?thesis using includes_lowered [OF 2 a] by (simp add: getVehicleInfo_def Let_def)
  next
    case 3
    then show ?thesis using includes_lowered [OF 3 m] by (simp add: getVehicleInfo_def Let_def)
  qed
qed

lemma keywords_lower:
  "lowerLetters (ascii ''moto'')" "lowerLetters (ascii ''bike'')"
  "lowerLetters (ascii ''auto'')" "lowerLetters (ascii ''tuk'')"
  by (simp_all add: lowerLetters_def ascii_def)

text \<open>
  C7, as amended. The label is lower-cased by \<open>toLowerCase\<close> and the keywords are looked
  for in the result, the bike keywords first: the category is bike exactly when the
  lower-cased label contains \<open>moto\<close> or \<open>bike\<close>, auto exactly when it contains neither
  and contains \<open>auto\<close> or \<open>tuk\<close>, and standard exactly when it contains none of the
  four (a missing label counts as the empty string). The flag of the simple receipt flow is
  on exactly when one of the four keywords is there, which is: exactly for the categories
  auto and bike. On a label of ASCII characters, containing a keyword after lower-casing
  is the same as having a stretch that spells the keyword in any mix of capital and small
  letters, so there the three categories are fixed by such stretches alone; on any label, a
  stretch that spells a bike keyword makes it a bike, and one that spells an auto keyword
  sets the flag. For an image URL the program does something else: it sets the flag exactly
  when the URL contains \<open>TukTuk\<close>, \<open>Auto\<close> or \<open>Moto\<close>, spelt just so. Whenever that
  test sets the flag, the label test on the same string would set it too, but not the other
  way round; and the vehicle type such an activity gets, \<open>Auto\<close> or \<open>Car\<close>, is of the
  category auto or standard, never bike.
\<close>

theorem vehicle_classifier:
  "(label = pre @ m @ post \<and> (caseVariant m (ascii ''moto'') \<or> caseVariant m (ascii ''bike'')) \<longrightarrow>
      getVehicleIcon lc (Some label) = Bike \<and> isAuto (getVehicleInfo lc (Some label))
      \<and> isBike (getVehicleInfo lc (Some label)))
   \<and> (label = pre @ m @ post \<and> (caseVariant m (ascii ''auto'') \<or> caseVariant m (ascii ''tuk'')) \<longrightarrow>
      (getVehicleIcon lc (Some label) = Auto \<or> getVehicleIcon lc (Some label) = Bike)
      \<and> isAuto (getVehicleInfo lc (Some label)))
   \<and> (getVehicleIcon lc v = Standard \<longleftrightarrow>
        (\<forall>kw\<in>set [ascii ''moto'', ascii ''bike'', ascii ''auto'', ascii ''tuk''].
           \<not> includes_str (case v of None \<Rightarrow> [] | Some l \<Rightarrow> toLowerCase lc l) kw))
   \<and> (getVehicleIcon lc v = Bike \<longleftrightarrow>
        (\<exists>a b. (case v of None \<Rightarrow> [] | Some l \<Rightarrow> toLowerCase lc l) = a @ ascii ''moto'' @ b) \<or>
        (\<exists>a b. (case v of None \<Rightarrow> [] | Some l \<Rightarrow> toLowerCase lc l) = a @ ascii ''bike'' @ b))
   \<and> (getVehicleIcon lc v = Auto \<longleftrightarrow>
        \<not> ((\<exists>a b. (case v of None \<Rightarrow> [] | Some l \<Rightarrow> toLowerCase lc l) = a @ ascii ''moto'' @ b) \<or>
           (\<exists>a b. (case v of None \<Rightarrow> [] | Some l \<Rightarrow> toLowerCase lc l) = a @ ascii ''bike'' @ b))
        \<and> ((\<exists>a b. (case v of None \<Rightarrow> [] | Some l \<Rightarrow> toLowerCase lc l) = a @ ascii ''auto'' @ b) \<or>
           (\<exists>a b. (case v of None \<Rightarrow> [] | Some l \<Rightarrow> toLowerCase lc l) = a @ ascii ''tuk'' @ b)))
   \<and> (getVehicleIcon lc v = Bike \<longleftrightarrow> isBike (getVehicleInfo lc v))
   \<and> (isAuto (getVehicleInfo lc v) \<longleftrightarrow> getVehicleIcon lc v = Auto \<or> getVehicleIcon lc v = Bike)
   \<and> ((\<forall>c\<in>set label. c < 0x80) \<longrightarrow>
        (getVehicleIcon lc (Some label) = Bike \<longleftrightarrow>
           (\<exists>pre m post. label = pre @ m @ post \<and>
              (caseVariant m (ascii ''moto'') \<or> caseVariant m (ascii ''bike''))))
        \<and> (getVehicleIcon lc (Some label) = Auto \<longleftrightarrow>
           \<not> (\<exists>pre m post. label = pre @ m @ post \<and>
                (caseVariant m (ascii ''moto'') \<or> caseVariant m (ascii ''bike'')))
           \<and> (\<exists>pre m post. label = pre @ m @ post \<and>
                (caseVariant m (ascii ''auto'') \<or> caseVariant m (ascii ''tuk''))))
        \<and> (getVehicleIcon lc (Some label) = Standard \<longleftrightarrow>
           \<not> (\<exists>pre m post. label = pre @ m @ post \<and>
                (caseVariant m (ascii ''moto'') \<or> caseVariant m (ascii ''bike'') \<or>
                 caseVariant m (ascii ''auto'') \<or> caseVariant m (ascii ''tuk'')))))
   \<and> (isAutoRideFromImage url \<longleftrightarrow>
        (\<exists>a b. url = a @ ascii ''TukTuk'' @ b) \<or> (\<exists>a b. url = a @ ascii ''Auto'' @ b) \<or>
        (\<exists>a b. url = a @ ascii ''Moto'' @ b))
   \<and> (isAutoRideFromImage url \<longrightarrow> isAuto (getVehicleInfo lc (Some url)))
   \<and> getVehicleIcon lc (Some (activityVehicleType url)) =
        (if isAutoRideFromImage url then Auto else Standard)"
proof -
  let ?lower = "case v of None \<Rightarrow> [] | Some l \<Rightarrow> toLowerCase lc l"
  have bike: "getVehicleIcon lc (Some label) = Bike \<and> isAuto (getVehicleInfo lc (Some label))
      \<and> isBike (getVehicleInfo lc (Some label))"
    if "label = pre @ m @ post" "caseVariant m (ascii ''moto'') \<or> caseVariant m (ascii ''bike'')"
    using that ci_includes [of label pre m post _ lc] keywords_lower
    by (auto simp: getVehicleIcon_def getVehicleInfo_def Let_def)
  have auto: "(getVehicleIcon lc (Some label) = Auto \<or> getVehicleIcon lc (Some label) = Bike)
      \<and> isAuto (getVehicleInfo lc (Some label))"
    if "label = pre @ m @ post" "caseVariant m (ascii ''auto'') \<or> caseVariant m (ascii ''tuk'')"
    using that ci_includes [of label pre m post _ lc] keywords_lower
    by (auto simp: getVehicleIcon_def getVehicleInfo_def Let_def)
  have std: "getVehicleIcon lc v = Standard \<longleftrightarrow>
        (\<forall>kw\<in>set [ascii ''moto'', ascii ''bike'', ascii ''auto'', ascii ''tuk''].
           \<not> includes_str ?lower kw)"
    by (simp add: getVehicleIcon_def Let_def)
  have isbike: "getVehicleIcon lc v = Bike \<longleftrightarrow>
        (\<exists>a b. ?lower = a @ ascii ''moto'' @ b) \<or> (\<exists>a b. ?lower = a @ ascii ''bike'' @ b)"
    unfolding includes_str_iff [symmetric] by (simp add: getVehicleIcon_def Let_def)
  have isauto: "getVehicleIcon lc v = Auto \<longleftrightarrow>
        \<not> ((\<exists>a b. ?lower = a @ ascii ''moto'' @ b) \<or> (\<exists>a b. ?lower = a @ ascii ''bike'' @ b))
        \<and> ((\<exists>a b. ?lower = a @ ascii ''auto'' @ b) \<or> (\<exists>a b. ?lower = a @ ascii ''tuk'' @ b))"
    unfolding includes_str_iff [symmetric] by (simp add: getVehicleIcon_def Let_def)
  have flags: "(getVehicleIcon lc v = Bike \<longleftrightarrow> isBike (getVehicleInfo lc v))"
    "(isAuto (getVehicleInfo lc v) \<longleftrightarrow> getVehicleIcon lc v = Auto \<or> getVehicleIcon lc v = Bike)"
    by (auto simp: getVehicleIcon_def getVehicleInfo_def Let_def)
  have plain: "(getVehicleIcon lc (Some label) = Bike \<longleftrightarrow>
           (\<exists>pre m post. label = pre @ m @ post \<and>
              (caseVariant m (ascii ''moto'') \<or> caseVariant m (ascii ''bike''))))
        \<and> (getVehicleIcon lc (Some label) = Auto \<longleftrightarrow>
           \<not> (\<exists>pre m post. label = pre @ m @ post \<and>
                (caseVariant m (ascii ''moto'') \<or> caseVariant m (ascii ''bike'')))
           \<and> (\<exists>pre m post. label = pre @ m @ post \<and>
                (caseVariant m (ascii ''auto'') \<or> caseVariant m (ascii ''tuk''))))
        \<and> (getVehicleIcon lc (Some label) = Standard \<longleftrightarrow>
           \<not> (\<exists>pre m post. label = pre @ m @ post \<and>
                (caseVariant m (ascii ''moto'') \<or> caseVariant m (ascii ''bike'') \<or>
                 caseVariant m (ascii ''auto'') \<or> caseVariant m (ascii ''tuk''))))"
    if ascii: "\<forall>c\<in>set label. c < 0x80"
  proof -
    note inc = ascii_lower_includes [OF ascii, of _ lc]
    have m: "includes_str (toLowerCase lc label) (ascii ''moto'') \<longleftrightarrow>
               (\<exists>pre m post. label = pre @ m @ post \<and> caseVariant m (ascii ''moto''))"
      and b: "includes_str (toLowerCase lc label) (ascii ''bike'') \<longleftrightarrow>
               (\<exists>pre m post. label = pre @ m @ post \<and> caseVariant m (ascii ''bike''))"
      and a: "includes_str (toLowerCase lc label) (ascii ''auto'') \<longleftrightarrow>
               (\<exists>pre m post. label = pre @ m @ post \<and> caseVariant m (ascii ''auto''))"
      and t: "includes_str (toLowerCase lc label) (ascii ''tuk'') \<longleftrightarrow>
               (\<exists>pre m post. label = pre @ m @ post \<and> caseVariant m (ascii ''tuk''))"
      by (rule inc, rule keywords_lower)+
    have icon: "getVehicleIcon lc (Some label) =
        (if includes_str (toLowerCase lc label) (ascii ''moto'') \<or>
            includes_str (toLowerCase lc label) (ascii ''bike'') then Bike
         else if includes_str (toLowerCase lc label) (ascii ''auto'') \<or>
            includes_str (toLowerCase lc label) (ascii ''tuk'') then Auto
         else Standard)"
      by (simp add: getVehicleIcon_def Let_def)
    show ?thesis
      unfolding icon m b a t by (simp split: if_splits) blast
  qed
  have img: "isAutoRideFromImage url \<longleftrightarrow>
        (\<exists>a b. url = a @ ascii ''TukTuk'' @ b) \<or> (\<exists>a b. url = a @ ascii ''Auto'' @ b) \<or>
        (\<exists>a b. url = a @ ascii ''Moto'' @ b)"
    by (simp add: isAutoRideFromImage_def includes_str_iff)
  have act: "getVehicleIcon lc (Some (activityVehicleType url)) =
        (if isAutoRideFromImage url then Auto else Standard)"
    by (simp add: activityVehicleType_def getVehicleIcon_def lowered_keywords Let_def) (simp add: ascii_def)
  show ?thesis
    apply (intro conjI impI)
    subgoal using bike by blast
    subgoal using bike by blast
    subgoal using bike by blast
    subgoal using auto by blast
    subgoal using auto by blast
    subgoal by (rule std)
    subgoal by (rule isbike)
    subgoal by (rule isauto)
    subgoal by (rule flags(1))
    subgoal by (rule flags(2))
    subgoal using plain by blast
    subgoal using plain by blast
    subgoal using plain by blast
    subgoal by (rule img)
    subgoal by (rule image_flag_implies_label_flag)
    subgoal by (rule act)
    done
qed

text \<open>
  Instances: \<open>UberMOTO\<close> is a bike, \<open>Uber Auto\<close> and \<open>TukTuk\<close> are autos,
  \<open>UberXL\<close> is standard, and an image URL with \<open>TukTuk\<close> in it sets the flag.
\<close>

theorem vehicle_classifier_witness:
  "caseVariant (ascii ''MOTO'') (ascii ''moto'')
   \<and> getVehicleIcon exampleLower (Some (ascii ''UberMOTO'')) = Bike
   \<and> isAuto (getVehicleInfo exampleLower (Some (ascii ''UberMOTO'')))
   \<and> caseVariant (ascii ''Auto'') (ascii ''auto'')
   \<and> list_all (\<lambda>c. c < 0x80) (ascii ''Uber Auto'')
   \<and> getVehicleIcon exampleLower (Some (ascii ''Uber Auto'')) = Auto
   \<and> getVehicleIcon exampleLower (Some (ascii ''TukTuk'')) = Auto
   \<and> getVehicleIcon exampleLower (Some (ascii ''UberXL'')) = Standard
   \<and> isAutoRideFromImage (ascii ''https://cdn.example/TukTuk_v1.png'')
   \<and> isAuto (getVehicleInfo exampleLower (Some (ascii ''https://cdn.example/TukTuk_v1.png'')))"
proof -
  have cv: "caseVariant (ascii ''MOTO'') (ascii ''moto'')" "caseVariant (ascii ''Auto'') (ascii ''auto'')"
    by (simp_all add: caseVariant_def ascii_def)
  have d1: "ascii ''UberMOTO'' = ascii ''Uber'' @ ascii ''MOTO'' @ []"
    and d2: "ascii ''Uber Auto'' = ascii ''Uber '' @ ascii ''Auto'' @ []"
    by (simp_all add: ascii_def)
  have plain: "\<forall>c\<in>set (ascii ''Uber Auto''). c < 0x80"
    by (simp add: ascii_def)
  have img: "isAutoRideFromImage (ascii ''https://cdn.example/TukTuk_v1.png'')"
    by (simp add: isAutoRideFromImage_def ascii_def)
  have nomoto: "\<not> includes_str (toLowerCase exampleLower (ascii ''Uber Auto'')) (ascii ''moto'')"
    and nobike: "\<not> includes_str (toLowerCase exampleLower (ascii ''Uber Auto'')) (ascii ''bike'')"
    by (simp_all add: toLowerCase_def lowerChar_def ascii_def)
  have nb: "\<not> (\<exists>pre m post. ascii ''Uber Auto'' = pre @ m @ post \<and>
                (caseVariant m (ascii ''moto'') \<or> caseVariant m (ascii ''bike'')))"
    using nomoto nobike
      ascii_lower_includes [OF plain keywords_lower(1), of exampleLower]
      ascii_lower_includes [OF plain keywords_lower(2), of exampleLower]
    by blast
  have au: "\<exists>pre m post. ascii ''Uber Auto'' = pre @ m @ post \<and>
                (caseVariant m (ascii ''auto'') \<or> caseVariant m (ascii ''tuk''))"
    using d2 cv(2) by blast
  have tuk: "\<not> ((\<exists>a b. toLowerCase exampleLower (ascii ''TukTuk'') = a @ ascii ''moto'' @ b) \<or>
                 (\<exists>a b. toLowerCase exampleLower (ascii ''TukTuk'') = a @ ascii ''bike'' @ b))
             \<and> ((\<exists>a b. toLowerCase exampleLower (ascii ''TukTuk'') = a @ ascii ''auto'' @ b) \<or>
                 (\<exists>a b. toLowerCase exampleLower (ascii ''TukTuk'') = a @ ascii ''tuk'' @ b))"
    unfolding includes_str_iff [symmetric]
    by (simp add: toLowerCase_def lowerChar_def ascii_def)
  have xl: "\<forall>kw\<in>set [ascii ''moto'', ascii ''bike'', ascii ''auto'', ascii ''tuk''].
           \<not> includes_str (case Some (ascii ''UberXL'') of None \<Rightarrow> [] | Some l \<Rightarrow> toLowerCase exampleLower l) kw"
    by (simp add: toLowerCase_def lowerChar_def ascii_def)
  note moto = vehicle_classifier [of "ascii ''UberMOTO''" "ascii ''Uber''" "ascii ''MOTO''" "[]"
    exampleLower None "[]", THEN conjunct1, THEN mp, OF conjI [OF d1 disjI1 [OF cv(1)]]]
  have a1: "getVehicleIcon exampleLower (Some (ascii ''UberMOTO'')) = Bike"
    using moto by (rule conjunct1)
  have a2: "isAuto (getVehicleInfo exampleLower (Some (ascii ''UberMOTO'')))"
    using moto by (elim conjE)
  note ua = vehicle_classifier [of "ascii ''Uber Auto''" "[]" "[]" "[]" exampleLower None "[]",
    THEN conjunct2, THEN conjunct2, THEN conjunct2, THEN conjunct2, THEN conjunct2,
    THEN conjunct2, THEN conjunct2, THEN conjunct1, THEN mp, OF plain,
    THEN conjunct2, THEN conjunct1, THEN iffD2, OF conjI [OF nb au]]
  have b: "getVehicleIcon exampleLower (Some (ascii ''Uber Auto'')) = Auto"
    by (rule ua)
  note tk = vehicle_classifier [of "[]" "[]" "[]" "[]" exampleLower "Some (ascii ''TukTuk'')" "[]",
    THEN conjunct2, THEN conjunct2, THEN conjunct2, THEN conjunct2, THEN conjunct1,
    unfolded option.case, THEN iffD2, OF tuk]
  have t: "getVehicleIcon exampleLower (Some (ascii ''TukTuk'')) = Auto"
    by (rule tk)
  note ux = vehicle_classifier [of "[]" "[]" "[]" "[]" exampleLower "Some (ascii ''UberXL'')" "[]",
    THEN conjunct2, THEN conjunct2, THEN conjunct1, THEN iffD2, OF xl]
  have c: "getVehicleIcon exampleLower (Some (ascii ''UberXL'')) = Standard"
    by (rule ux)
  note im = vehicle_classifier [of "[]" "[]" "[]" "[]" exampleLower None
    "ascii ''https://cdn.example/TukTuk_v1.png''",
    THEN conjunct2, THEN conjunct2, THEN conjunct2, THEN conjunct2, THEN conjunct2,
    THEN conjunct2, THEN conjunct2, THEN conjunct2, THEN conjunct2, THEN conjunct1,
    THEN mp, OF img]
  have d: "isAuto (getVehicleInfo exampleLower (Some (ascii ''https://cdn.example/TukTuk_v1.png'')))"
    by (rule im)
  have plain': "list_all (\<lambda>c. c < 0x80) (ascii ''Uber Auto'')"
    by (simp add: ascii_def)
  show ?thesis using cv(1) a1 a2 cv(2) plain' b t c img d by (intro conjI)
qed

text \<open>
  C7 as stated fails on image URLs: a URL that contains \<open>bike\<close>, or \<open>auto\<close> in small
  letters, would be a bike or an auto by the keywords of the label test, and the program's
  URL test leaves the flag off.
\<close>

theorem image_classifier_differs_counterexample:
  "isAuto (getVehicleInfo exampleLower (Some (ascii ''https://cdn.example/uber_bike.png'')))
   \<and> getVehicleIcon exampleLower (Some (ascii ''https://cdn.example/uber_bike.png'')) = Bike
   \<and> \<not> isAutoRideFromImage (ascii ''https://cdn.example/uber_bike.png'')
   \<and> isAuto (getVehicleInfo exampleLower (Some (ascii ''https://cdn.example/auto.png'')))
   \<and> \<not> isAutoRideFromImage (ascii ''https://cdn.example/auto.png'')"
  by (simp add: getVehicleInfo_def getVehicleIcon_def isAutoRideFromImage_def toLowerCase_def
      lowerChar_def exampleLower_def ascii_def)

section \<open>Export Renderer: dates that do not parse\<close>

lemma safeParseDate_None:
  "safeParseDate lib s = None \<longleftrightarrow> s = [] \<or> (parseISO lib s = None \<and> newDate lib s = None)"
  by (simp add: safeParseDate_def split: option.splits)

text \<open>
  C8, as amended. A timestamp does not parse when it is empty or when both \<open>parseISO\<close>
  and \<open>new Date\<close> reject it. For such a start time the PDF row shows the original
  string in the pickup cell (\<open>N/A\<close> if it is empty), and the CSV row has an empty pickup
  cell. For such an end time the PDF row shows \<open>N/A\<close> in the dropoff cell, and the CSV
  row has an empty dropoff cell. Both rows are built all the same: the renderers have no
  failing branch.
\<close>

theorem unparsed_date_cells:
  "(safeParseDate lib s = None \<longleftrightarrow> s = [] \<or> (parseISO lib s = None \<and> newDate lib s = None))
   \<and> (safeParseDate lib (startTime ride) = None \<longrightarrow>
        pdfRideRow lib rt index ride ! 1 =
          (if startTime ride = [] then ascii ''N/A'' else startTime ride)
        \<and> csvRideRow lib rt ride ! 1 = [])
   \<and> (safeParseDate lib (endTime ride) = None \<longrightarrow>
        pdfRideRow lib rt index ride ! 2 = ascii ''N/A''
        \<and> csvRideRow lib rt ride ! 2 = [])"
proof -
  have a: "safeParseDate lib s = None \<longleftrightarrow> s = [] \<or> (parseISO lib s = None \<and> newDate lib s = None)"
    by (rule safeParseDate_None)
  have b: "pdfRideRow lib rt index ride ! 1 =
          (if startTime ride = [] then ascii ''N/A'' else startTime ride)
        \<and> csvRideRow lib rt ride ! 1 = []"
    if "safeParseDate lib (startTime ride) = None"
    using that by (simp add: pdfRideRow_def csvRideRow_def safeFormatDate_def Let_def)
  have c: "pdfRideRow lib rt index ride ! 2 = ascii ''N/A'' \<and> csvRideRow lib rt ride ! 2 = []"
    if "safeParseDate lib (endTime ride) = None"
    using that
    by (simp add: pdfRideRow_def csvRideRow_def safeFormatDate_def Let_def numeral_2_eq_2 ascii_def)
  show ?thesis using a b c by blast
qed

text \<open>An instance: a ride whose two timestamps read \<open>not a date\<close>.\<close>

theorem unparsed_date_cells_witness:
  "safeParseDate exampleDateLib (ascii ''not a date'') = None
   \<and> pdfRideRow exampleDateLib exampleRuntime 0 unparsedRide ! 1 = ascii ''not a date''
   \<and> csvRideRow exampleDateLib exampleRuntime unparsedRide ! 1 = []
   \<and> pdfRideRow exampleDateLib exampleRuntime 0 unparsedRide ! 2 = ascii ''N/A''
   \<and> csvRideRow exampleDateLib exampleRuntime unparsedRide ! 2 = []"
proof -
  have s: "startTime unparsedRide = ascii ''not a date''" "endTime unparsedRide = ascii ''not a date''"
    by (simp_all add: unparsedRide_def toRideData_def exampleRide_def)
  have n: "safeParseDate exampleDateLib (ascii ''not a date'') = None"
    by (simp add: safeParseDate_def exampleDateLib_def ascii_def)
  have ne: "ascii ''not a date'' \<noteq> []" by (simp add: ascii_def)
  show ?thesis
    using unparsed_date_cells [of exampleDateLib "ascii ''not a date''" unparsedRide exampleRuntime 0]
      s n ne by simp
qed

text \<open>
  C8 as stated fails on that ride: neither CSV cell holds the original string, and the
  dropoff cell of the PDF row does not either.
\<close>

theorem unparsed_date_not_original_counterexample:
  "safeParseDate exampleDateLib (startTime unparsedRide) = None
   \<and> safeParseDate exampleDateLib (endTime unparsedRide) = None
   \<and> csvRideRow exampleDateLib exampleRuntime unparsedRide ! 1 \<noteq> startTime unparsedRide
   \<and> csvRideRow exampleDateLib exampleRuntime unparsedRide ! 2 \<noteq> endTime unparsedRide
   \<and> pdfRideRow exampleDateLib exampleRuntime 0 unparsedRide ! 2 \<noteq> endTime unparsedRide"
  by (simp add: unparsedRide_def toRideData_def exampleRide_def safeParseDate_def
      exampleDateLib_def csvRideRow_def pdfRideRow_def safeFormatDate_def Let_def ascii_def
      numeral_2_eq_2)

section \<open>Selection summary and totals rows\<close>

lemma foldl_jsadd_exact:
  "map totalAmount rs = map Num xs \<Longrightarrow>
   \<forall>k \<le> length xs. roundDouble (a + sum_list (take k xs)) = Num (a + sum_list (take k xs)) \<Longrightarrow>
   foldl (\<lambda>sum ride. jsadd sum (totalAmount ride)) (Num a) rs = Num (a + sum_list xs)"
proof (induction rs arbitrary: a xs)
  case Nil
  then show ?case by simp
next
  case (Cons r rs)
  then obtain x xs' where xs: "xs = x # xs'" "totalAmount r = Num x" "map totalAmount rs = map Num xs'"
    by (cases xs) auto
  have one: "roundDouble (a + x) = Num (a + x)"
    using Cons.prems(2) [rule_format, of 1] xs(1) by simp
  have rest: "\<forall>k \<le> length xs'. roundDouble (a + x + sum_list (take k xs')) =
                 Num (a + x + sum_list (take k xs'))"
  proof (intro allI impI)
    fix k assume "k \<le> length xs'"
    then show "roundDouble (a + x + sum_list (take k xs')) = Num (a + x + sum_list (take k xs'))"
      using Cons.prems(2) [rule_format, of "Suc k"] xs(1) by (simp add: add.assoc)
  qed
  show ?case
    using Cons.IH [OF xs(3) rest] xs(1,2) one by (simp add: add.assoc)
qed

lemma foldl_amounts:
  "foldl (\<lambda>sum ride. jsadd sum (totalAmount ride)) a rs = foldl jsadd a (map totalAmount rs)"
  by (induction rs arbitrary: a) simp_all

lemma join_snoc: "xs \<noteq> [] \<Longrightarrow> join sep (xs @ [y]) = join sep xs @ sep @ y"
  by (induction sep xs rule: join.induct) auto

lemma join_Cons_snoc: "join sep (x # xs @ [y]) = join sep (x # xs) @ sep @ y"
  using join_snoc [of "x # xs" sep y] by simp

lemma generateCsv_last_line:
  "generateCsv lib rt s =
     join (ascii ''\<newline>'')
       (join (ascii '','') csvHeaders # map (\<lambda>ride. join (ascii '','') (csvRideRow lib rt ride)) (rides s))
     @ ascii ''\<newline>'' @ join (ascii '','') (csvTotalsRow rt s)"
proof -
  have "join (ascii '','') csvHeaders # map (join (ascii '','')) (csvRows lib rt s) =
        (join (ascii '','') csvHeaders # map (\<lambda>ride. join (ascii '','') (csvRideRow lib rt ride)) (rides s))
        @ [join (ascii '','') (csvTotalsRow rt s)]"
    by (simp add: csvRows_def o_def)
  then show ?thesis
    unfolding generateCsv_def by (simp add: join_Cons_snoc del: join.simps)
qed

lemma pdfTableData_last: "last (pdfTableData lib rt s) = pdfTotalsRow rt s"
  by (simp add: pdfTableData_def)

lemmas fixed_eval = ascii_def showNat.simps Let_def floor_rat_numeral_div

text \<open>
  C9, as amended. For a selection that is not empty, with \<open>r\<close> its first ride: the
  summary counts the selected rides; its total is the sum of their amounts taken from left
  to right in double-precision arithmetic, starting from 0, each addition rounded to the
  nearest double; the currencies play no part in it (no conversion takes place: putting
  any other currency on the rides leaves the total as it is); the total is the exact sum
  whenever every partial sum is a double; and the currency of the summary is that of the
  first selected ride (every ride the program builds has a currency that is not empty).
  For a selection of two rides of 84.38 and 120.00, as doubles, whose first is in rupees,
  the CSV ends with the line of seven empty cells followed by \<open>Total:,204.38,INR\<close>, and
  the table of the PDF ends with the row of six empty cells followed by
  \<open>Grand Total:\<close> and the rupee sign with \<open>204.38\<close>.
\<close>

theorem summary_of_selection:
  assumes sel: "filter (\<lambda>ride. rowSelection (rideId ride)) filtered = r # rs"
  shows "selectedCount (summary filtered rowSelection) = Suc (length rs)
     \<and> rides (summary filtered rowSelection) = r # rs
     \<and> summaryTotal (summary filtered rowSelection) =
         foldl jsadd (Num 0) (map totalAmount (r # rs))
     \<and> summaryTotal (summary (map (\<lambda>ride. ride \<lparr> currency := other ride \<rparr>) filtered) rowSelection) =
         summaryTotal (summary filtered rowSelection)
     \<and> (map totalAmount (r # rs) = map Num xs
          \<and> (\<forall>k \<le> length xs. roundDouble (sum_list (take k xs)) = Num (sum_list (take k xs))) \<longrightarrow>
          summaryTotal (summary filtered rowSelection) = Num (sum_list xs))
     \<and> (currency r \<noteq> [] \<longrightarrow> summaryCurrency (summary filtered rowSelection) = currency r)
     \<and> (rs = [r2] \<and> totalAmount r = roundDouble (8438 / 100) \<and> totalAmount r2 = roundDouble 120
          \<and> currency r = ascii ''INR'' \<longrightarrow>
          generateCsv lib rt (exportSummary (selectedCount (summary filtered rowSelection)) (summary filtered rowSelection)) =
            join (ascii ''\<newline>'')
              (join (ascii '','') csvHeaders #
               map (\<lambda>ride. join (ascii '','') (csvRideRow lib rt ride)) (map toRideData [r, r2]))
            @ ascii ''\<newline>,,,,,,,Total:,204.38,INR''
          \<and> last (pdfTableData lib rt (exportSummary (selectedCount (summary filtered rowSelection)) (summary filtered rowSelection))) =
            [[], [], [], [], [], [], ascii ''Grand Total:'', 0x20B9 # ascii ''204.38''])"
proof -
  let ?s = "summary filtered rowSelection"
  have cnt: "selectedCount ?s = Suc (length rs)" "rides ?s = r # rs"
    using sel by (simp_all add: summary_def Let_def)
  have tot: "summaryTotal ?s = foldl jsadd (Num 0) (map totalAmount (r # rs))"
    using sel foldl_amounts [of "Num 0" "r # rs"] by (simp add: summary_def Let_def)
  have other: "summaryTotal (summary (map (\<lambda>ride. ride \<lparr> currency := other ride \<rparr>) filtered) rowSelection) =
         summaryTotal ?s"
  proof -
    have "filter (\<lambda>ride. rowSelection (rideId ride)) (map (\<lambda>ride. ride \<lparr> currency := other ride \<rparr>) filtered)
        = map (\<lambda>ride. ride \<lparr> currency := other ride \<rparr>) (filter (\<lambda>ride. rowSelection (rideId ride)) filtered)"
      by (simp add: filter_map o_def)
    then show ?thesis
      by (simp add: summary_def Let_def foldl_amounts o_def)
  qed
  have exact: "summaryTotal ?s = Num (sum_list xs)"
    if "map totalAmount (r # rs) = map Num xs"
      "\<forall>k \<le> length xs. roundDouble (sum_list (take k xs)) = Num (sum_list (take k xs))"
    using foldl_jsadd_exact [OF that(1), of 0] that(2) sel by (simp add: summary_def Let_def)
  have cur: "summaryCurrency ?s = currency r" if "currency r \<noteq> []"
    using that sel by (simp add: summary_def Let_def)
  have ex: "generateCsv lib rt (exportSummary (selectedCount ?s) ?s) =
            join (ascii ''\<newline>'')
              (join (ascii '','') csvHeaders #
               map (\<lambda>ride. join (ascii '','') (csvRideRow lib rt ride)) (map toRideData [r, r2]))
            @ ascii ''\<newline>,,,,,,,Total:,204.38,INR''
          \<and> last (pdfTableData lib rt (exportSummary (selectedCount ?s) ?s)) =
            [[], [], [], [], [], [], ascii ''Grand Total:'', 0x20B9 # ascii ''204.38'']"
    if h: "rs = [r2]" "totalAmount r = roundDouble (8438 / 100)" "totalAmount r2 = roundDouble 120"
      "currency r = ascii ''INR''"
  proof -
    have am: "totalAmount r = Num (742214329213911 / 2 ^ 43)" "totalAmount r2 = Num 120"
      unfolding h(2,3) by (simp_all add: dbl split del: if_split)
    have "summaryTotal ?s = jsadd (jsadd (Num 0) (Num (742214329213911 / 2 ^ 43))) (Num 120)"
      using tot h(1) am by simp
    also have "\<dots> = Num (1797745491878871 / 2 ^ 43)"
      by (simp add: dbl split del: if_split)
    finally have t: "summaryTotal ?s = Num (1797745491878871 / 2 ^ 43)" .
    have c: "summaryCurrency ?s = ascii ''INR''"
      using h(4) sel by (simp add: summary_def Let_def ascii_def)
    have fx: "toFixed2 rt (summaryTotal ?s) = ascii ''204.38''"
      unfolding t by (simp add: fixed_eval)
    have row: "join (ascii '','') (csvTotalsRow rt (exportSummary (selectedCount ?s) ?s)) = ascii '',,,,,,,Total:,204.38,INR''"
      by (simp add: csvTotalsRow_def exportSummary_def c fx) (simp add: ascii_def)
    have pdf: "pdfTotalsRow rt (exportSummary (selectedCount ?s) ?s) =
        [[], [], [], [], [], [], ascii ''Grand Total:'', 0x20B9 # ascii ''204.38'']"
      by (simp add: pdfTotalsRow_def exportSummary_def formatCurrency_def c fx)
         (simp add: getCurrencySymbol_def ascii_def)
    have rd: "rides (exportSummary (selectedCount ?s) ?s) = map toRideData [r, r2]"
      using cnt(2) h(1) by (simp add: exportSummary_def)
    show ?thesis
      using generateCsv_last_line [of lib rt "exportSummary (selectedCount ?s) ?s"] row pdf rd
        pdfTableData_last [of lib rt "exportSummary (selectedCount ?s) ?s"]
      by (simp add: ascii_def)
  qed
  show ?thesis
    apply (intro conjI impI)
    subgoal by (rule cnt(1))
    subgoal by (rule cnt(2))
    subgoal by (rule tot)
    subgoal by (rule other)
    subgoal using exact by blast
    subgoal using cur by blast
    subgoal using ex by blast
    subgoal using ex by blast
    done
qed

text \<open>
  An instance: the first two of three rides are selected, their amounts read from the
  fares \<open>84.38\<close> and \<open>120.00\<close> in rupees.
\<close>

theorem summary_of_selection_witness:
  "filter (\<lambda>ride. exampleSelection (rideId ride)) exampleRides = [exampleRides ! 0, exampleRides ! 1]
   \<and> totalAmount (exampleRides ! 0) = parseAmount (0x20B9 # ascii ''84.38'')
   \<and> totalAmount (exampleRides ! 1) = parseAmount (0x20B9 # ascii ''120.00'')
   \<and> selectedCount (summary exampleRides exampleSelection) = 2
   \<and> summaryTotal (summary exampleRides exampleSelection) = Num (742214329213911 / 2 ^ 43 + 120)
   \<and> summaryCurrency (summary exampleRides exampleSelection) = ascii ''INR''
   \<and> generateCsv exampleDateLib exampleRuntime
         (exportSummary (selectedCount (summary exampleRides exampleSelection))
            (summary exampleRides exampleSelection)) =
       join (ascii ''\<newline>'')
         (join (ascii '','') csvHeaders #
          map (\<lambda>ride. join (ascii '','') (csvRideRow exampleDateLib exampleRuntime ride))
            (map toRideData [exampleRides ! 0, exampleRides ! 1]))
       @ ascii ''\<newline>,,,,,,,Total:,204.38,INR''
   \<and> last (pdfTableData exampleDateLib exampleRuntime
         (exportSummary (selectedCount (summary exampleRides exampleSelection))
            (summary exampleRides exampleSelection))) =
       [[], [], [], [], [], [], ascii ''Grand Total:'', 0x20B9 # ascii ''204.38'']"
proof -
  let ?r1 = "exampleRides ! 0"
  let ?r2 = "exampleRides ! 1"
  let ?d = "742214329213911 / 2 ^ 43 :: rat"
  have pa: "parseAmount (0x20B9 # ascii ''84.38'') = roundDouble (8438 / 100)"
    "parseAmount (0x20B9 # ascii ''120.00'') = roundDouble 120"
    by (simp_all add: parser_eval)
  have rd: "roundDouble (8438 / 100) = Num ?d" "roundDouble 120 = Num 120"
    by (simp_all add: dbl split del: if_split)
  have sel: "filter (\<lambda>ride. exampleSelection (rideId ride)) exampleRides = ?r1 # [?r2]"
    by (simp add: exampleRides_def exampleSelection_def exampleRide_def ascii_def)
  have am0: "totalAmount ?r1 = parseAmount (0x20B9 # ascii ''84.38'')"
    "totalAmount ?r2 = parseAmount (0x20B9 # ascii ''120.00'')"
    by (simp_all add: exampleRides_def exampleRide_def)
  have am: "totalAmount ?r1 = roundDouble (8438 / 100)" "totalAmount ?r2 = roundDouble 120"
    using am0 pa by simp_all
  have amn: "map totalAmount (?r1 # [?r2]) = map Num [?d, 120]"
    using am rd by simp
  have part: "\<forall>k \<le> length [?d, 120]. roundDouble (sum_list (take k [?d, 120])) =
                Num (sum_list (take k [?d, 120]))"
  proof (intro allI impI)
    fix k :: nat assume "k \<le> length [?d, 120]"
    then consider "k = 0" | "k = 1" | "k = 2" by force
    then show "roundDouble (sum_list (take k [?d, 120])) = Num (sum_list (take k [?d, 120]))"
      by cases (simp_all add: dbl split del: if_split)
  qed
  have cu: "currency ?r1 = ascii ''INR''" "currency ?r1 \<noteq> []"
    by (simp_all add: exampleRides_def exampleRide_def ascii_def)
  note th = summary_of_selection [OF sel, of "\<lambda>ride. []" "[?d, 120]" ?r2 exampleDateLib exampleRuntime]
  have c1: "selectedCount (summary exampleRides exampleSelection) = 2"
    using th [THEN conjunct1] by simp
  have c2: "summaryTotal (summary exampleRides exampleSelection) = Num (?d + 120)"
    using th [THEN conjunct2, THEN conjunct2, THEN conjunct2, THEN conjunct2, THEN conjunct1,
      THEN mp, OF conjI [OF amn part]] by simp
  have c3: "summaryCurrency (summary exampleRides exampleSelection) = ascii ''INR''"
    using th [THEN conjunct2, THEN conjunct2, THEN conjunct2, THEN conjunct2, THEN conjunct2,
      THEN conjunct1, THEN mp, OF cu(2)] cu(1) by simp
  note rows = th [THEN conjunct2, THEN conjunct2, THEN conjunct2, THEN conjunct2, THEN conjunct2,
      THEN conjunct2, THEN mp, OF conjI [OF refl conjI [OF am(1) conjI [OF am(2) cu(1)]]]]
  show ?thesis
    using sel am0 c1 c2 c3 rows [THEN conjunct1] rows [THEN conjunct2]
    by (intro conjI)
qed

text \<open>
  C9 as stated fails where a sum has to be rounded. Ten and twenty cents: the two amounts
  are the doubles nearest to 0.1 and 0.2, their arithmetic sum is no double, and the total
  is the double next to it (\<open>0.30000000000000004\<close>). A half and 0.505: the total is
  the double just below 1.005 and the totals row shows \<open>1.00\<close>, where the arithmetic sum
  of the two amounts would show \<open>1.01\<close>.
\<close>

theorem rounded_total_counterexample:
  "totalAmount (dimeRides ! 0) = Num (3602879701896397 / 2 ^ 55)
   \<and> totalAmount (dimeRides ! 1) = Num (3602879701896397 / 2 ^ 54)
   \<and> summaryTotal (summary dimeRides (\<lambda>rid. True)) = Num (1351079888211149 / 2 ^ 52)
   \<and> summaryTotal (summary dimeRides (\<lambda>rid. True)) \<noteq>
         Num (3602879701896397 / 2 ^ 55 + 3602879701896397 / 2 ^ 54)
   \<and> totalAmount (halfRides ! 0) = Num (1 / 2)
   \<and> totalAmount (halfRides ! 1) = Num (4548635623644201 / 2 ^ 53)
   \<and> summaryTotal (summary halfRides (\<lambda>rid. True)) = Num (1131529406376837 / 2 ^ 50)
   \<and> csvTotalsRow exampleRuntime (exportSummary 2 (summary halfRides (\<lambda>rid. True))) =
         [[], [], [], [], [], [], [], ascii ''Total:'', ascii ''1.00'', ascii ''USD'']
   \<and> toFixed2 exampleRuntime (Num (1 / 2 + 4548635623644201 / 2 ^ 53)) = ascii ''1.01''"
proof -
  have pa: "parseAmount (ascii ''$0.10'') = Num (3602879701896397 / 2 ^ 55)"
    "parseAmount (ascii ''$0.20'') = Num (3602879701896397 / 2 ^ 54)"
    "parseAmount (ascii ''0.500'') = Num (1 / 2)"
    "parseAmount (ascii ''0.505'') = Num (4548635623644201 / 2 ^ 53)"
    by (simp_all add: parser_eval dbl split del: if_split)
  have d: "totalAmount (dimeRides ! 0) = Num (3602879701896397 / 2 ^ 55)"
    "totalAmount (dimeRides ! 1) = Num (3602879701896397 / 2 ^ 54)"
    by (simp_all add: dimeRides_def exampleRide_def pa)
  have h: "totalAmount (halfRides ! 0) = Num (1 / 2)"
    "totalAmount (halfRides ! 1) = Num (4548635623644201 / 2 ^ 53)"
    by (simp_all add: halfRides_def exampleRide_def pa)
  have "summaryTotal (summary dimeRides (\<lambda>rid. True)) =
          jsadd (jsadd (Num 0) (Num (3602879701896397 / 2 ^ 55))) (Num (3602879701896397 / 2 ^ 54))"
    by (simp add: summary_def Let_def dimeRides_def exampleRide_def pa)
  also have "\<dots> = Num (1351079888211149 / 2 ^ 52)"
    by (simp add: dbl split del: if_split)
  finally have dt: "summaryTotal (summary dimeRides (\<lambda>rid. True)) = Num (1351079888211149 / 2 ^ 52)" .
  have dn: "summaryTotal (summary dimeRides (\<lambda>rid. True)) \<noteq>
         Num (3602879701896397 / 2 ^ 55 + 3602879701896397 / 2 ^ 54)"
    unfolding dt by simp
  have "summaryTotal (summary halfRides (\<lambda>rid. True)) =
          jsadd (jsadd (Num 0) (Num (1 / 2))) (Num (4548635623644201 / 2 ^ 53))"
    by (simp add: summary_def Let_def halfRides_def exampleRide_def pa)
  also have "\<dots> = Num (1131529406376837 / 2 ^ 50)"
    by (simp add: dbl split del: if_split)
  finally have ht: "summaryTotal (summary halfRides (\<lambda>rid. True)) = Num (1131529406376837 / 2 ^ 50)" .
  have hc: "summaryCurrency (summary halfRides (\<lambda>rid. True)) = ascii ''USD''"
    by (simp add: summary_def Let_def halfRides_def exampleRide_def ascii_def)
  have fx: "toFixed2 exampleRuntime (summaryTotal (summary halfRides (\<lambda>rid. True))) = ascii ''1.00''"
    unfolding ht by (simp add: fixed_eval)
  have row: "csvTotalsRow exampleRuntime (exportSummary 2 (summary halfRides (\<lambda>rid. True))) =
         [[], [], [], [], [], [], [], ascii ''Total:'', ascii ''1.00'', ascii ''USD'']"
    by (simp add: csvTotalsRow_def exportSummary_def hc fx)
  have ex: "toFixed2 exampleRuntime (Num (1 / 2 + 4548635623644201 / 2 ^ 53)) = ascii ''1.01''"
    by (simp add: fixed_eval)
  show ?thesis
    using d dt dn h ht row ex by (intro conjI)
qed
section \<open>Export entry points on an empty selection\<close>

lemma detectCurrency_cases:
  "detectCurrency str \<in> {ascii ''INR'', ascii ''EUR'', ascii ''GBP'', ascii ''USD''}"
  by (simp add: detectCurrency_def)

lemma fallback_not_detected: "detectCurrency str \<noteq> fallbackCurrency"
  using detectCurrency_cases [of str] by (auto simp: fallbackCurrency_def ascii_def)

text \<open>On a selection that is not empty the CSV handler does hand over a file.\<close>

lemma csv_export_of_selection:
  "selectedCount s \<noteq> 0 \<Longrightarrow>
   downloads (handleDownloadCsv env s) =
     [(fileName env ''uber_expenses_'' ''.csv'',
       CsvFile (generateCsv (dateLib env) (runtime env) (exportSummary (selectedCount s) s)))]"
  by (simp add: handleDownloadCsv_def)

text \<open>
  C10. When no ride is selected, the summary has the count 0, the total 0 and the
  fallback currency, a constant of three code units (U+00E2, U+201A, U+00B9) that is no
  ride's currency (the parser yields none but INR, EUR, GBP and USD) and has not the shape
  of an ISO currency code; and each of the four export handlers (report, invoices, summary
  PDF, CSV) returns at once: no file is handed to the download, no network request is
  made (the font is not fetched either, and its cache is left as it was), nothing is
  logged.
\<close>

theorem empty_selection_exports_nothing:
  assumes empty: "filter (\<lambda>ride. rowSelection (rideId ride)) filtered = []"
  shows "selectedCount (summary filtered rowSelection) = 0
     \<and> summaryTotal (summary filtered rowSelection) = Num 0
     \<and> summaryCurrency (summary filtered rowSelection) = fallbackCurrency
     \<and> fallbackCurrency = [0xE2, 0x201A, 0xB9]
     \<and> \<not> isoCodeShape fallbackCurrency
     \<and> detectCurrency str \<noteq> fallbackCurrency
     \<and> handleDownloadReport env cache auth user (summary filtered rowSelection) = (nothingDone, cache)
     \<and> handleDownloadInvoices env auth (summary filtered rowSelection) = nothingDone
     \<and> handleDownloadSummaryPdf env cache user (summary filtered rowSelection) = (nothingDone, cache)
     \<and> handleDownloadCsv env (summary filtered rowSelection) = nothingDone
     \<and> downloads (nothingDone :: 'p handler_outcome) = []
     \<and> networkRequests (nothingDone :: 'p handler_outcome) = []"
proof -
  let ?s = "summary filtered rowSelection"
  have s: "selectedCount ?s = 0" "summaryTotal ?s = Num 0" "summaryCurrency ?s = fallbackCurrency"
    using empty by (simp_all add: summary_def Let_def)
  have iso: "\<not> isoCodeShape fallbackCurrency"
    by (simp add: isoCodeShape_def fallbackCurrency_def)
  have h1: "handleDownloadReport env cache auth user ?s = (nothingDone, cache)"
    using s(1) by (simp add: handleDownloadReport_def split: option.splits)
  have h2: "handleDownloadInvoices env auth ?s = nothingDone"
    using s(1) by (simp add: handleDownloadInvoices_def split: option.splits)
  have h3: "handleDownloadSummaryPdf env cache user ?s = (nothingDone, cache)"
    using s(1) by (simp add: handleDownloadSummaryPdf_def)
  have h4: "handleDownloadCsv env ?s = nothingDone"
    using s(1) by (simp add: handleDownloadCsv_def)
  have n: "downloads (nothingDone :: 'p handler_outcome) = []"
    "networkRequests (nothingDone :: 'p handler_outcome) = []"
    by (simp_all add: nothingDone_def)
  show ?thesis
    using s iso h1 h2 h3 h4 n fallback_not_detected [of str]
    by (simp add: fallbackCurrency_def)
qed

text \<open>An instance: three rides, none selected.\<close>

theorem empty_selection_exports_nothing_witness:
  "filter (\<lambda>ride. False) exampleRides = []
   \<and> summaryTotal (summary exampleRides (\<lambda>rid. False)) = Num 0
   \<and> summaryCurrency (summary exampleRides (\<lambda>rid. False)) = [0xE2, 0x201A, 0xB9]
   \<and> handleDownloadReport exampleEnv None (Some exampleAuth) None
        (summary exampleRides (\<lambda>rid. False)) = (nothingDone, None)
   \<and> handleDownloadInvoices exampleEnv (Some exampleAuth) (summary exampleRides (\<lambda>rid. False))
        = nothingDone
   \<and> handleDownloadSummaryPdf exampleEnv None None (summary exampleRides (\<lambda>rid. False))
        = (nothingDone, None)
   \<and> handleDownloadCsv exampleEnv (summary exampleRides (\<lambda>rid. False)) = nothingDone"
proof -
  have e: "filter (\<lambda>ride. (\<lambda>rid. False) (rideId ride)) exampleRides = []" by simp
  note th = empty_selection_exports_nothing [OF e, where env = exampleEnv and cache = None
        and auth = "Some exampleAuth" and user = None and str = "[]"]
  have c0: "filter (\<lambda>ride. False) exampleRides = []" by simp
  have c2: "summaryCurrency (summary exampleRides (\<lambda>rid. False)) = [0xE2, 0x201A, 0xB9]"
    using th by (elim conjE) (rule trans)
  show ?thesis
    using th c0 c2 by (elim conjE, intro conjI)
qed

section \<open>Receipt Resolver: the choice of the URL\<close>

lemma resolvePdfUrl_requests:
  "snd (resolvePdfUrl invoice now u autoRide) = (if autoRide then [] else [InvoiceFilesRequest u])"
  by (simp add: resolvePdfUrl_def split: invoice_response.splits option.splits list.splits)

lemma fetchOneReceipt_requests:
  "snd (fetchOneReceipt invoice pdfFetch now u autoRide) =
   snd (resolvePdfUrl invoice now u autoRide) @ [PdfRequest (fst (resolvePdfUrl invoice now u autoRide))]"
  by (simp add: fetchOneReceipt_def split_def Let_def split: sum.splits)

text \<open>
  C1. For a trip with the flag \<open>isAutoRide\<close> set, the resolver builds the direct receipt
  URL with the time stamp, and the requests of the trip hold no invoice-listing request
  for any trip. For a trip without the flag, the first request is the invoice listing of
  the trip and the second, the last, the download from the URL chosen: the same direct
  receipt URL when the listing failed, came without a list or with an empty one; the
  download URL of the first file when the list has one or more files, whatever the others
  are. This is what the single-trip function does for a trip with valid input, and what
  the multi-trip function does for each of its trips, in their order, with the clock
  reading of that trip.
\<close>

theorem receipt_resolver:
  "(autoRide \<longrightarrow> resolvePdfUrl invoice now u autoRide = (receiptUrl u now, []))
   \<and> (autoRide \<longrightarrow> InvoiceFilesRequest v \<notin> set (snd (fetchOneReceipt invoice pdfFetch now u autoRide)))
   \<and> (\<not> autoRide \<longrightarrow>
        snd (fetchOneReceipt invoice pdfFetch now u autoRide) =
          [InvoiceFilesRequest u, PdfRequest (fst (resolvePdfUrl invoice now u autoRide))])
   \<and> (\<not> autoRide \<and> (invoice u = InvoiceFailed \<or> invoice u = InvoiceFiles None
                     \<or> invoice u = InvoiceFiles (Some [])) \<longrightarrow>
        fst (resolvePdfUrl invoice now u autoRide) = receiptUrl u now)
   \<and> (\<not> autoRide \<and> invoice u = InvoiceFiles (Some (firstFile # others)) \<longrightarrow>
        fst (resolvePdfUrl invoice now u autoRide) = firstFile)
   \<and> (validAuth auth \<and> u \<noteq> [] \<longrightarrow>
        fetchReceiptPdf auth invoice pdfFetch now u autoRide =
          Inr (fetchOneReceipt invoice pdfFetch now u autoRide))
   \<and> (validAuth auth \<and> i < length trips \<longrightarrow>
        (\<exists>results. fetchMultipleReceiptPdfs auth invoice pdfFetch clk trips = Inr results
           \<and> length results = length trips
           \<and> results ! i = fetchOneReceipt invoice pdfFetch (clk i) (fst (trips ! i)) (snd (trips ! i))))"
proof -
  have a: "resolvePdfUrl invoice now u autoRide = (receiptUrl u now, [])" if autoRide
    using that by (simp add: resolvePdfUrl_def)
  have b: "InvoiceFilesRequest v \<notin> set (snd (fetchOneReceipt invoice pdfFetch now u autoRide))" if autoRide
    using that by (simp add: fetchOneReceipt_requests resolvePdfUrl_requests)
  have c: "snd (fetchOneReceipt invoice pdfFetch now u autoRide) =
          [InvoiceFilesRequest u, PdfRequest (fst (resolvePdfUrl invoice now u autoRide))]"
    if "\<not> autoRide"
    using that by (simp add: fetchOneReceipt_requests resolvePdfUrl_requests)
  have d: "fst (resolvePdfUrl invoice now u autoRide) = receiptUrl u now"
    if "\<not> autoRide" "invoice u = InvoiceFailed \<or> invoice u = InvoiceFiles None
                     \<or> invoice u = InvoiceFiles (Some [])"
    using that by (auto simp: resolvePdfUrl_def)
  have e: "fst (resolvePdfUrl invoice now u autoRide) = firstFile"
    if "\<not> autoRide" "invoice u = InvoiceFiles (Some (firstFile # others))"
    using that by (simp add: resolvePdfUrl_def)
  have f: "fetchReceiptPdf auth invoice pdfFetch now u autoRide =
          Inr (fetchOneReceipt invoice pdfFetch now u autoRide)"
    if "validAuth auth" "u \<noteq> []"
    using that by (simp add: fetchReceiptPdf_def)
  have g: "\<exists>results. fetchMultipleReceiptPdfs auth invoice pdfFetch clk trips = Inr results
           \<and> length results = length trips
           \<and> results ! i = fetchOneReceipt invoice pdfFetch (clk i) (fst (trips ! i)) (snd (trips ! i))"
    if "validAuth auth" "i < length trips"
  proof -
    have "trips \<noteq> []" using that(2) by auto
    then show ?thesis
      using that by (simp add: fetchMultipleReceiptPdfs_def nth_enumerate_eq)
  qed
  show ?thesis using a b c d e f g by blast
qed

text \<open>
  Instances: an auto ride \<open>r2\<close>; \<open>r1\<close>, whose listing is empty; \<open>r3\<close>, whose
  listing has two files.
\<close>

theorem receipt_resolver_witness:
  "validAuth exampleAuth
   \<and> resolvePdfUrl (invoiceFiles exampleEnv) 1700000000000 (ascii ''r2'') True =
       (ascii ''https://riders.uber.com/trips/r2/receipt?contentType=PDF&timestamp=1700000000000'', [])
   \<and> invoiceFiles exampleEnv (ascii ''r1'') = InvoiceFiles (Some [])
   \<and> snd (fetchOneReceipt (invoiceFiles exampleEnv) examplePdfResponse 1700000000000 (ascii ''r1'') False) =
       [InvoiceFilesRequest (ascii ''r1''),
        PdfRequest (ascii ''https://riders.uber.com/trips/r1/receipt?contentType=PDF&timestamp=1700000000000'')]
   \<and> fst (resolvePdfUrl (invoiceFiles exampleEnv) 1700000000000 (ascii ''r3'') False) =
       ascii ''https://x.example/invoices/r3''"
proof -
  have v: "validAuth exampleAuth"
    by (simp add: validAuth_def exampleAuth_def ascii_def)
  have u1: "receiptUrl (ascii ''r1'') 1700000000000 =
      ascii ''https://riders.uber.com/trips/r1/receipt?contentType=PDF&timestamp=1700000000000''"
    and u2: "receiptUrl (ascii ''r2'') 1700000000000 =
      ascii ''https://riders.uber.com/trips/r2/receipt?contentType=PDF&timestamp=1700000000000''"
    by (simp_all add: receiptUrl_def showNat.simps ascii_def)
  have i1: "invoiceFiles exampleEnv (ascii ''r1'') = InvoiceFiles (Some [])"
    and i3: "invoiceFiles exampleEnv (ascii ''r3'') =
      InvoiceFiles (Some (ascii ''https://x.example/invoices/r3'' #
                          [ascii ''https://x.example/invoices/r3-old'']))"
    by (simp_all add: exampleEnv_def ascii_def)
  have a: "resolvePdfUrl (invoiceFiles exampleEnv) 1700000000000 (ascii ''r2'') True =
      (receiptUrl (ascii ''r2'') 1700000000000, [])"
    using receipt_resolver [where autoRide = True and invoice = "invoiceFiles exampleEnv"
        and now = 1700000000000 and u = "ascii ''r2''"]
    by blast
  have b: "fst (resolvePdfUrl (invoiceFiles exampleEnv) 1700000000000 (ascii ''r1'') False) =
      receiptUrl (ascii ''r1'') 1700000000000"
    and c: "snd (fetchOneReceipt (invoiceFiles exampleEnv) examplePdfResponse 1700000000000
                  (ascii ''r1'') False) =
      [InvoiceFilesRequest (ascii ''r1''),
       PdfRequest (fst (resolvePdfUrl (invoiceFiles exampleEnv) 1700000000000 (ascii ''r1'') False))]"
    using receipt_resolver [where autoRide = False and invoice = "invoiceFiles exampleEnv"
        and now = 1700000000000 and u = "ascii ''r1''" and pdfFetch = examplePdfResponse] i1
    by blast+
  have d: "fst (resolvePdfUrl (invoiceFiles exampleEnv) 1700000000000 (ascii ''r3'') False) =
      ascii ''https://x.example/invoices/r3''"
    using receipt_resolver [where autoRide = False and invoice = "invoiceFiles exampleEnv"
        and now = 1700000000000 and u = "ascii ''r3''"
        and firstFile = "ascii ''https://x.example/invoices/r3''"
        and others = "[ascii ''https://x.example/invoices/r3-old'']"] i3
    by blast
  show ?thesis
    using v a b c d i1 u1 u2 by simp
qed

section \<open>Document Merge Engine: order, skipped documents, failed fetches\<close>

lemma mergeReceipts_state:
  "mergeReceipts load docs st =
     st \<lparr> mergedPages := mergedPages st @ concat (map (pagesOf load) docs),
          mergeFailures := mergeFailures st @ map fst (filter (\<lambda>d. load (snd d) = None) docs) \<rparr>"
proof (induction docs arbitrary: st)
  case Nil
  then show ?case by simp
next
  case (Cons d docs)
  show ?case
    by (cases "load (snd d)") (simp_all add: Cons.IH pagesOf_def)
qed

lemma loadGoogleSansFont_ok:
  assumes "cache \<noteq> None \<or> response \<noteq> None"
  shows "\<exists>bytes. loadGoogleSansFont cache response =
           (Inr bytes, (case cache of None \<Rightarrow> response | Some b \<Rightarrow> cache),
            (if cache = None then [FontRequest] else []))"
  using assms by (auto simp: loadGoogleSansFont_def split: option.splits)

lemma coverPages_not_empty: "coverPages env cover \<noteq> []"
  by (simp add: coverPages_def split: prod.splits)

lemma generateSummaryPdf_ok:
  assumes font: "cache \<noteq> None \<or> fontResponse env \<noteq> None"
  shows "generateSummaryPdf env cache s acct (Some docs) =
     (\<lparr> pdfPages = Inr (coverPages env (summaryCover env s acct) @
                        concat (map (pagesOf (loadPdf env)) docs)),
        pdfRequests = (if cache = None then [FontRequest] else []),
        pdfMergeFailures = map fst (filter (\<lambda>d. loadPdf env (snd d) = None) docs) \<rparr>,
      (case cache of None \<Rightarrow> fontResponse env | Some b \<Rightarrow> cache))"
proof -
  obtain bytes where "loadGoogleSansFont cache (fontResponse env) =
           (Inr bytes, (case cache of None \<Rightarrow> fontResponse env | Some b \<Rightarrow> cache),
            (if cache = None then [FontRequest] else []))"
    using loadGoogleSansFont_ok [OF font] by blast
  then show ?thesis
    by (cases docs)
       (simp_all add: generateSummaryPdf_def Let_def mergeReceipts_state savePdf_def
          coverPages_not_empty)
qed

lemma generateSummaryPdf_no_font:
  assumes "cache = None" "fontResponse env = None"
  shows "pdfPages (fst (generateSummaryPdf env cache s acct docs)) =
           Inl (ascii ''Failed to load Google Sans Flex font'')"
  using assms by (simp add: generateSummaryPdf_def loadGoogleSansFont_def)

lemma fetchOneReceipt_result:
  "fst (fetchOneReceipt invoice pdfFetch now u autoRide) =
     (case pdfFetch (fst (resolvePdfUrl invoice now u autoRide)) of
        Inr payload \<Rightarrow> \<lparr> pdfRideId = u, pdfBase64 = Some payload, pdfError = None \<rparr>
      | Inl msg \<Rightarrow> \<lparr> pdfRideId = u, pdfBase64 = None, pdfError = Some msg \<rparr>)"
  by (simp add: fetchOneReceipt_def split_def Let_def split: sum.splits)

lemma enumerate_nth: "enumerate 0 xs = map (\<lambda>i. (i, xs ! i)) [0..<length xs]"
  by (rule nth_equalityI) (simp_all add: nth_enumerate_eq)

lemma fetchMultiple_positions:
  assumes "validAuth a" "trips \<noteq> []"
  shows "\<exists>results. fetchMultipleReceiptPdfs a invoice pdfFetch clk trips = Inr results
           \<and> length results = length trips
           \<and> (\<forall>i < length trips. results ! i =
                 fetchOneReceipt invoice pdfFetch (clk i) (fst (trips ! i)) (snd (trips ! i)))"
  using assms by (simp add: fetchMultipleReceiptPdfs_def enumerate_nth)

lemma fetched_documents:
  "validPdfs (map fst (map (\<lambda>(i, trip). fetchOneReceipt (invoiceFiles env) (pdfResponse env)
                                          (clock env i) (fst trip) (snd trip))
                         (enumerate 0 (tripsOf s)))) =
   selectionDocs env (rides s)"
proof -
  let ?one = "\<lambda>i. fst (fetchOneReceipt (invoiceFiles env) (pdfResponse env) (clock env i)
                        (fst (tripsOf s ! i)) (snd (tripsOf s ! i)))"
  let ?doc = "\<lambda>i. case pdfBase64 (?one i) of Some b \<Rightarrow> [(pdfRideId (?one i), b)] | None \<Rightarrow> []"
  have len: "length (tripsOf s) = length (rides s)" by (simp add: tripsOf_def)
  have pt: "?doc i = receiptDocument env i (rides s ! i)" if "i < length (rides s)" for i
    using that
    by (simp add: fetchOneReceipt_result receiptDocument_def tripsOf_def split: sum.splits)
  have "validPdfs (map fst (map (\<lambda>(i, trip). fetchOneReceipt (invoiceFiles env) (pdfResponse env)
                                          (clock env i) (fst trip) (snd trip))
                         (enumerate 0 (tripsOf s)))) =
        concat (map ?doc [0..<length (tripsOf s)])"
    by (simp add: validPdfs_def enumerate_nth o_def)
  also have "\<dots> = concat (map (\<lambda>i. receiptDocument env i (rides s ! i)) [0..<length (rides s)])"
    unfolding len by (rule arg_cong [where f = concat], rule map_cong [OF refl]) (simp add: pt)
  finally show ?thesis by (simp only: selectionDocs_def)
qed

lemma fetchMultiple_results:
  assumes "validAuth a" "rides s \<noteq> []"
  shows "\<exists>results. fetchMultipleReceiptPdfs a (invoiceFiles env) (pdfResponse env) (clock env)
                      (tripsOf s) = Inr results
           \<and> validPdfs (map fst results) = selectionDocs env (rides s)"
  using assms fetched_documents [of env s]
  by (simp add: fetchMultipleReceiptPdfs_def tripsOf_def)

lemma report_with_documents:
  assumes "validAuth a" "selectedCount s \<noteq> 0" "rides s \<noteq> []"
    and font: "cache \<noteq> None \<or> fontResponse env \<noteq> None"
    and docs: "selectionDocs env (rides s) \<noteq> []"
  shows "downloads (fst (handleDownloadReport env cache (Some a) user s)) =
     [(fileName env ''uber_expenses_'' ''.pdf'',
       PdfFile (coverPages env
                  (summaryCover env (exportSummary (length (selectionDocs env (rides s))) s)
                     (accountNameOf user)) @
                concat (map (pagesOf (loadPdf env)) (selectionDocs env (rides s)))))]"
proof -
  obtain results where r:
    "fetchMultipleReceiptPdfs a (invoiceFiles env) (pdfResponse env) (clock env) (tripsOf s) = Inr results"
    "validPdfs (map fst results) = selectionDocs env (rides s)"
    using fetchMultiple_results [OF assms(1,3)] by blast
  show ?thesis
    using assms(2) docs
    by (simp add: handleDownloadReport_def r Let_def generateSummaryPdf_ok [OF font])
qed

lemma report_without_font:
  assumes "validAuth a" "selectedCount s \<noteq> 0" "rides s \<noteq> []"
    and font: "cache = None" "fontResponse env = None"
  shows "downloads (fst (handleDownloadReport env cache (Some a) user s)) = []"
proof -
  obtain results where r:
    "fetchMultipleReceiptPdfs a (invoiceFiles env) (pdfResponse env) (clock env) (tripsOf s) = Inr results"
    using fetchMultiple_results [OF assms(1,3)] by blast
  have g: "generateSummaryPdf env None es acct docs =
             (\<lparr> pdfPages = Inl (ascii ''Failed to load Google Sans Flex font''),
                pdfRequests = [FontRequest], pdfMergeFailures = [] \<rparr>, None)" for es acct docs
    using font(2) by (simp add: generateSummaryPdf_def loadGoogleSansFont_def)
  show ?thesis
    using assms(2) by (simp add: handleDownloadReport_def r Let_def font(1) g)
qed

lemma report_without_documents:
  assumes "validAuth a" "selectedCount s \<noteq> 0" "rides s \<noteq> []"
    and docs: "selectionDocs env (rides s) = []"
  shows "downloads (fst (handleDownloadReport env cache (Some a) user s)) = []
       \<and> consoleErrors (fst (handleDownloadReport env cache (Some a) user s)) =
           [ascii ''No PDFs were successfully fetched'']"
proof -
  obtain results where r:
    "fetchMultipleReceiptPdfs a (invoiceFiles env) (pdfResponse env) (clock env) (tripsOf s) = Inr results"
    "validPdfs (map fst results) = selectionDocs env (rides s)"
    using fetchMultiple_results [OF assms(1,3)] by blast
  show ?thesis
    using assms(2) docs by (simp add: handleDownloadReport_def r Let_def)
qed

lemma invoices_export:
  assumes "validAuth a" "selectedCount s \<noteq> 0" "rides s \<noteq> []"
  shows "downloads (handleDownloadInvoices env (Some a) s) =
     (if selectionDocs env (rides s) = [] then []
      else [(fileName env ''uber_invoices_'' ''.pdf'',
             PdfFile (if concat (map (pagesOf (loadPdf env)) (selectionDocs env (rides s))) = []
                      then [blankPage env]
                      else concat (map (pagesOf (loadPdf env)) (selectionDocs env (rides s)))))])"
proof -
  obtain results where r:
    "fetchMultipleReceiptPdfs a (invoiceFiles env) (pdfResponse env) (clock env) (tripsOf s) = Inr results"
    "validPdfs (map fst results) = selectionDocs env (rides s)"
    using fetchMultiple_results [OF assms(1,3)] by blast
  show ?thesis
    using assms(2)
    by (simp add: handleDownloadInvoices_def r Let_def mergeReceipts_state savePdf_def)
qed

lemma selectionDocs_ids_gen:
  "map fst (concat (map (\<lambda>i. receiptDocument env i (rs ! i)) js)) =
   map (\<lambda>i. rideId (rs ! i)) (filter (\<lambda>i. \<not> fetchFails env i (rs ! i)) js)"
  by (induction js) (simp_all add: receiptDocument_def fetchFails_def split: sum.splits)

lemma selectionDocs_ids:
  "map fst (selectionDocs env rs) =
   map (\<lambda>i. rideId (rs ! i)) (filter (\<lambda>i. \<not> fetchFails env i (rs ! i)) [0..<length rs])"
  unfolding selectionDocs_def by (rule selectionDocs_ids_gen)

lemma map_nth_upt:
  "b \<le> length rs \<Longrightarrow> map (\<lambda>i. f (rs ! i)) [a..<b] = map f (take (b - a) (drop a rs))"
  by (rule nth_equalityI) simp_all

lemma selectionDocs_one_failure:
  assumes k: "k < length rs" and bad: "fetchFails env k (rs ! k)"
    and good: "\<forall>i < length rs. i \<noteq> k \<longrightarrow> \<not> fetchFails env i (rs ! i)"
  shows "map fst (selectionDocs env rs) = map rideId (take k rs @ drop (Suc k) rs)"
proof -
  have "[0..<length rs] = [0..<k] @ [k..<length rs]"
    using upt_add_eq_append [of 0 k "length rs - k"] k by simp
  then have split: "[0..<length rs] = [0..<k] @ k # [Suc k..<length rs]"
    using k by (simp add: upt_conv_Cons)
  have a: "filter (\<lambda>i. \<not> fetchFails env i (rs ! i)) [0..<k] = [0..<k]"
    using k good by (auto intro!: filter_True)
  have b: "filter (\<lambda>i. \<not> fetchFails env i (rs ! i)) [Suc k..<length rs] = [Suc k..<length rs]"
    using good by (auto intro!: filter_True)
  have "map fst (selectionDocs env rs) =
          map (\<lambda>i. rideId (rs ! i)) [0..<k] @ map (\<lambda>i. rideId (rs ! i)) [Suc k..<length rs]"
    unfolding selectionDocs_ids by (subst split) (simp add: a b bad)
  also have "map (\<lambda>i. rideId (rs ! i)) [0..<k] = map rideId (take k rs)"
    using map_nth_upt [of k rs rideId 0] k by simp
  also have "map (\<lambda>i. rideId (rs ! i)) [Suc k..<length rs] = map rideId (drop (Suc k) rs)"
    using map_nth_upt [of "length rs" rs rideId "Suc k"] by simp
  finally show ?thesis by simp
qed

text \<open>
  C3, as amended. Merging appends to the pages already there the pages of every document
  that decodes, in the order of the list, and notes the rides of those that do not; a
  document that does not decode adds no page and stops nothing. With the font at hand,
  \<open>generateSummaryPdf\<close> on a cover and a list of documents yields exactly the pages of
  the cover followed by the pages of the documents in list order; without the font it
  yields an error and no document. The list holds the documents in the order of the
  selection, not of the arrival of the answers: every fetch reports its own result, a
  payload or an error message, at the position of its trip, and the documents kept are
  those of the trips whose fetch succeeded, in the order of the selection; with one failure
  among \<open>N\<close> trips these are the other \<open>N - 1\<close>. So when at least one fetch succeeds and
  the font is at hand, the report is one file: the cover, then the documents fetched, in
  selection order; the export of the invoices is one file with the documents fetched, in
  selection order, and no cover (one blank page if none of them decodes). When no fetch
  succeeds, neither export produces a file, and the report produces none without the font.
\<close>

theorem merged_document_order:
  "mergedPages (mergeReceipts load docs st) = mergedPages st @ concat (map (pagesOf load) docs)
   \<and> mergeFailures (mergeReceipts load docs st) =
        mergeFailures st @ map fst (filter (\<lambda>d. load (snd d) = None) docs)
   \<and> (cache \<noteq> None \<or> fontResponse env \<noteq> None \<longrightarrow>
        pdfPages (fst (generateSummaryPdf env cache es acct (Some docs))) =
          Inr (coverPages env (summaryCover env es acct) @ concat (map (pagesOf (loadPdf env)) docs)))
   \<and> (cache = None \<and> fontResponse env = None \<longrightarrow>
        pdfPages (fst (generateSummaryPdf env cache es acct (Some docs))) =
          Inl (ascii ''Failed to load Google Sans Flex font''))
   \<and> fst (fetchOneReceipt invoice pdfFetch now u autoRide) =
        (case pdfFetch (fst (resolvePdfUrl invoice now u autoRide)) of
           Inr payload \<Rightarrow> \<lparr> pdfRideId = u, pdfBase64 = Some payload, pdfError = None \<rparr>
         | Inl msg \<Rightarrow> \<lparr> pdfRideId = u, pdfBase64 = None, pdfError = Some msg \<rparr>)
   \<and> (validAuth a \<and> trips \<noteq> [] \<longrightarrow>
        (\<exists>results. fetchMultipleReceiptPdfs a invoice pdfFetch clk trips = Inr results
           \<and> length results = length trips
           \<and> (\<forall>i < length trips. results ! i =
                 fetchOneReceipt invoice pdfFetch (clk i) (fst (trips ! i)) (snd (trips ! i)))))
   \<and> map fst (selectionDocs env rs) =
        map (\<lambda>i. rideId (rs ! i)) (filter (\<lambda>i. \<not> fetchFails env i (rs ! i)) [0..<length rs])
   \<and> (k < length rs \<and> fetchFails env k (rs ! k)
        \<and> (\<forall>i < length rs. i \<noteq> k \<longrightarrow> \<not> fetchFails env i (rs ! i)) \<longrightarrow>
        map fst (selectionDocs env rs) = map rideId (take k rs @ drop (Suc k) rs))
   \<and> (validAuth a \<and> selectedCount s \<noteq> 0 \<and> rides s \<noteq> []
        \<and> (cache \<noteq> None \<or> fontResponse env \<noteq> None) \<and> selectionDocs env (rides s) \<noteq> [] \<longrightarrow>
        downloads (fst (handleDownloadReport env cache (Some a) user s)) =
          [(fileName env ''uber_expenses_'' ''.pdf'',
            PdfFile (coverPages env
                       (summaryCover env (exportSummary (length (selectionDocs env (rides s))) s)
                          (accountNameOf user)) @
                     concat (map (pagesOf (loadPdf env)) (selectionDocs env (rides s)))))])
   \<and> (validAuth a \<and> selectedCount s \<noteq> 0 \<and> rides s \<noteq> []
        \<and> cache = None \<and> fontResponse env = None \<longrightarrow>
        downloads (fst (handleDownloadReport env cache (Some a) user s)) = [])
   \<and> (validAuth a \<and> selectedCount s \<noteq> 0 \<and> rides s \<noteq> [] \<and> selectionDocs env (rides s) = [] \<longrightarrow>
        downloads (fst (handleDownloadReport env cache (Some a) user s)) = []
        \<and> consoleErrors (fst (handleDownloadReport env cache (Some a) user s)) =
            [ascii ''No PDFs were successfully fetched''])
   \<and> (validAuth a \<and> selectedCount s \<noteq> 0 \<and> rides s \<noteq> [] \<longrightarrow>
        downloads (handleDownloadInvoices env (Some a) s) =
          (if selectionDocs env (rides s) = [] then []
           else [(fileName env ''uber_invoices_'' ''.pdf'',
                  PdfFile (if concat (map (pagesOf (loadPdf env)) (selectionDocs env (rides s))) = []
                           then [blankPage env]
                           else concat (map (pagesOf (loadPdf env)) (selectionDocs env (rides s)))))]))"
  apply (intro conjI impI)
  subgoal by (simp add: mergeReceipts_state)
  subgoal by (simp add: mergeReceipts_state)
  subgoal by (simp add: generateSummaryPdf_ok)
  subgoal by (rule generateSummaryPdf_no_font) simp_all
  subgoal by (rule fetchOneReceipt_result)
  subgoal by (rule fetchMultiple_positions) simp_all
  subgoal by (rule selectionDocs_ids)
  subgoal by (rule selectionDocs_one_failure) simp_all
  subgoal by (rule report_with_documents) simp_all
  subgoal by (rule report_without_font) simp_all
  subgoal using report_without_documents [of a s env cache user] by simp
  subgoal using report_without_documents [of a s env cache user] by simp
  subgoal by (rule invoices_export) simp_all
  done

text \<open>The three sample rides are selected and the fetch for \<open>r2\<close> fails.\<close>

lemmas example_eval =
  exampleEnv_def exampleDateLib_def summary_def exampleRides_def exampleRide_def tripsOf_def
  selectionDocs_def receiptDocument_def fetchFails_def fetchOneReceipt_def resolvePdfUrl_def
  receiptUrl_def examplePdfResponse_def exampleLoadPdf_def validPdfs_def enumerate_eq_zip
  showNat.simps ascii_def Let_def exampleAuth_def validAuth_def

lemma example_docs:
  "selectionDocs exampleEnv exampleRides =
     [(ascii ''r1'', ascii ''cGRmLXIx''), (ascii ''r3'', ascii ''cGRmLXIz'')]"
  by (simp add: example_eval upt_rec)

lemma example_fails:
  "\<not> fetchFails exampleEnv 0 (exampleRides ! 0)"
  "fetchFails exampleEnv 1 (exampleRides ! 1)"
  "\<not> fetchFails exampleEnv 2 (exampleRides ! 2)"
  by (simp_all add: example_eval)

theorem merged_document_order_witness:
  "validAuth exampleAuth
   \<and> selectedCount (summary exampleRides (\<lambda>rid. True)) = 3
   \<and> rides (summary exampleRides (\<lambda>rid. True)) = exampleRides
   \<and> fetchFails exampleEnv 1 (exampleRides ! 1)
   \<and> selectionDocs exampleEnv exampleRides =
       [(ascii ''r1'', ascii ''cGRmLXIx''), (ascii ''r3'', ascii ''cGRmLXIz'')]
   \<and> map fst (selectionDocs exampleEnv exampleRides) =
       map rideId (take 1 exampleRides @ drop 2 exampleRides)
   \<and> downloads (fst (handleDownloadReport exampleEnv None (Some exampleAuth) None
                        (summary exampleRides (\<lambda>rid. True)))) =
       [(ascii ''uber_expenses_2025-11-16.pdf'', PdfFile [0, 11, 12, 31])]
   \<and> downloads (handleDownloadInvoices exampleEnv (Some exampleAuth)
                   (summary exampleRides (\<lambda>rid. True))) =
       [(ascii ''uber_invoices_2025-11-16.pdf'', PdfFile [11, 12, 31])]"
proof -
  let ?s = "summary exampleRides (\<lambda>rid. True)"
  have v: "validAuth exampleAuth"
    by (simp add: validAuth_def exampleAuth_def ascii_def)
  have n: "selectedCount ?s = 3" "selectedCount ?s \<noteq> 0" "rides ?s \<noteq> []" "rides ?s = exampleRides"
    by (simp_all add: summary_def exampleRides_def Let_def)
  have font: "(None :: nat option) \<noteq> None \<or> fontResponse exampleEnv \<noteq> None"
    by (simp add: exampleEnv_def)
  have docs: "selectionDocs exampleEnv (rides ?s) \<noteq> []"
    by (simp add: n(4) example_docs)
  have len: "length exampleRides = 3" by (simp add: exampleRides_def)
  have others: "\<forall>i < length exampleRides. i \<noteq> 1 \<longrightarrow> \<not> fetchFails exampleEnv i (exampleRides ! i)"
  proof (intro allI impI)
    fix i :: nat assume "i < length exampleRides" "i \<noteq> 1"
    then consider "i = 0" | "i = 2" using len by force
    then show "\<not> fetchFails exampleEnv i (exampleRides ! i)"
      by cases (simp_all add: example_fails)
  qed
  have one: "(1 :: nat) < length exampleRides" by (simp add: len)
  have pages: "concat (map (pagesOf (loadPdf exampleEnv)) (selectionDocs exampleEnv (rides ?s)))
      = [11, 12, 31]"
    by (simp add: n(4) example_docs pagesOf_def) (simp add: exampleEnv_def exampleLoadPdf_def ascii_def)
  have cover: "coverPages exampleEnv cover = [0]" for cover
    by (simp add: coverPages_def exampleEnv_def)
  have name: "fileName exampleEnv ''uber_expenses_'' ''.pdf'' = ascii ''uber_expenses_2025-11-16.pdf''"
    "fileName exampleEnv ''uber_invoices_'' ''.pdf'' = ascii ''uber_invoices_2025-11-16.pdf''"
    by (simp_all add: fileName_def exampleEnv_def exampleDateLib_def ascii_def)
  note th = merged_document_order [where a = exampleAuth and s = "?s" and cache = "None :: nat option"
        and env = exampleEnv and user = None and rs = exampleRides and k = 1
        and load = exampleLoadPdf and docs = "[]" and st = "\<lparr> mergedPages = [], mergeFailures = [] \<rparr>"
        and es = "exportSummary 0 ?s" and acct = None and invoice = "invoiceFiles exampleEnv"
        and pdfFetch = examplePdfResponse and now = 0 and u = "[]" and autoRide = True
        and clk = "\<lambda>i. i" and trips = "[]"]
  note ids = th [THEN conjunct2, THEN conjunct2, THEN conjunct2, THEN conjunct2, THEN conjunct2,
      THEN conjunct2, THEN conjunct2, THEN conjunct1, THEN mp,
      OF conjI [OF one conjI [OF example_fails(2) others]]]
  note report = th [THEN conjunct2, THEN conjunct2, THEN conjunct2, THEN conjunct2, THEN conjunct2,
      THEN conjunct2, THEN conjunct2, THEN conjunct2, THEN conjunct1, THEN mp,
      OF conjI [OF v conjI [OF n(2) conjI [OF n(3) conjI [OF font docs]]]]]
  note invoices = th [THEN conjunct2, THEN conjunct2, THEN conjunct2, THEN conjunct2, THEN conjunct2,
      THEN conjunct2, THEN conjunct2, THEN conjunct2, THEN conjunct2, THEN conjunct2,
      THEN conjunct2, THEN mp, OF conjI [OF v conjI [OF n(2) n(3)]]]
  have c1: "map fst (selectionDocs exampleEnv exampleRides) =
       map rideId (take 1 exampleRides @ drop 2 exampleRides)"
    using ids by (simp add: numeral_2_eq_2)
  have c2: "downloads (fst (handleDownloadReport exampleEnv None (Some exampleAuth) None ?s)) =
       [(ascii ''uber_expenses_2025-11-16.pdf'', PdfFile [0, 11, 12, 31])]"
    using report by (simp only: pages cover name) simp
  have c3: "downloads (handleDownloadInvoices exampleEnv (Some exampleAuth) ?s) =
       [(ascii ''uber_invoices_2025-11-16.pdf'', PdfFile [11, 12, 31])]"
    using invoices docs by (simp only: pages name) simp
  show ?thesis
    using v n(1) n(4) example_fails(2) example_docs c1 c2 c3 by (intro conjI)
qed

text \<open>
  C3 as stated fails for \<open>N = 1\<close>: the one selected ride is \<open>r2\<close>, its fetch fails,
  and the export is given up: the failure is reported, but no file is produced.
\<close>

theorem single_failed_fetch_counterexample:
  "validAuth exampleAuth
   \<and> selectedCount (summary exampleRides (\<lambda>rid. rid = ascii ''r2'')) = 1
   \<and> (case fetchMultipleReceiptPdfs exampleAuth (invoiceFiles exampleEnv) (pdfResponse exampleEnv)
             (clock exampleEnv) (tripsOf (summary exampleRides (\<lambda>rid. rid = ascii ''r2''))) of
        Inr results \<Rightarrow> map fst results | Inl e \<Rightarrow> []) =
       [\<lparr> pdfRideId = ascii ''r2'', pdfBase64 = None,
          pdfError = Some (ascii ''Failed to fetch PDF: 404'') \<rparr>]
   \<and> downloads (fst (handleDownloadReport exampleEnv None (Some exampleAuth) None
                        (summary exampleRides (\<lambda>rid. rid = ascii ''r2'')))) = []
   \<and> consoleErrors (fst (handleDownloadReport exampleEnv None (Some exampleAuth) None
                        (summary exampleRides (\<lambda>rid. rid = ascii ''r2'')))) =
       [ascii ''No PDFs were successfully fetched'']
   \<and> downloads (handleDownloadInvoices exampleEnv (Some exampleAuth)
                   (summary exampleRides (\<lambda>rid. rid = ascii ''r2''))) = []"
  by (simp add: handleDownloadReport_def handleDownloadInvoices_def fetchMultipleReceiptPdfs_def
      example_eval upt_rec)
end
